theory Spec2Isabelle
  imports Complex_Main "HOL-Library.Word" "HOL-Library.Signed_Division"
begin

section \<open>Configuration constants\<close>

text \<open>
  The macros of \<^verbatim>\<open>live_audio_transcriber.cpp\<close>. Samples, magnitudes, frequencies and
  times are modelled by the real numbers they denote; comparisons and \<^verbatim>\<open>std::abs\<close> are
  exact on them. The arithmetic of \<^verbatim>\<open>frequencyToMidiNote\<close>, whose result is converted to
  \<^verbatim>\<open>int\<close>, is modelled with its binary64 rounding. The literal \<^verbatim>\<open>0.005f\<close> is a binary32
  constant: the binary32 value nearest to 5/1000 is \<open>10737418 / 2 ^ 31\<close>.
\<close>

definition SAMPLE_RATE :: nat where
  "SAMPLE_RATE = 48000"

definition FFT_SIZE :: nat where
  "FFT_SIZE = 8192"

definition HOP_SIZE :: nat where
  "HOP_SIZE = FFT_SIZE div 2"

definition FRAMES_PER_BUFFER :: nat where
  "FRAMES_PER_BUFFER = HOP_SIZE"

definition NOISE_GATE_THRESHOLD :: real where
  "NOISE_GATE_THRESHOLD = 10737418 / 2 ^ 31"

definition SPECTRAL_MAGNITUDE_THRESHOLD :: real where
  "SPECTRAL_MAGNITUDE_THRESHOLD = 5"

definition MIN_FREQUENCY :: real where
  "MIN_FREQUENCY = 80"

definition MAX_FREQUENCY :: real where
  "MAX_FREQUENCY = 2000"

definition CONSECUTIVE_DETECTIONS_REQUIRED :: int where
  "CONSECUTIVE_DETECTIONS_REQUIRED = 1"

definition CONSECUTIVE_SILENCE_REQUIRED :: int where
  "CONSECUTIVE_SILENCE_REQUIRED = 1"

section \<open>Helper functions\<close>

subsection \<open>Noise gate\<close>

text \<open>
  The range-for loop of \<^verbatim>\<open>passesNoiseGate\<close>: \<open>maxAmplitude\<close> is the accumulator, the
  list is the rest of \<^verbatim>\<open>audioData\<close>.
\<close>

fun maxAmplitudeLoop :: "real \<Rightarrow> real list \<Rightarrow> real" where
  "maxAmplitudeLoop maxAmplitude [] = maxAmplitude"
| "maxAmplitudeLoop maxAmplitude (sample # rest) =
     (let absSample = \<bar>sample\<bar>
      in maxAmplitudeLoop (if absSample > maxAmplitude then absSample else maxAmplitude) rest)"

definition passesNoiseGate :: "real list \<Rightarrow> bool" where
  "passesNoiseGate audioData = (maxAmplitudeLoop 0 audioData > NOISE_GATE_THRESHOLD)"

text \<open>
  The peak absolute amplitude of a window, the quantity the specification's gate is
  phrased with (0 for the empty window).
\<close>

definition peakAmplitude :: "real list \<Rightarrow> real" where
  "peakAmplitude audioData = Max (insert 0 (abs ` set audioData))"

subsection \<open>Note names\<close>

definition noteNames :: "string list" where
  "noteNames = [''C'', ''C#'', ''D'', ''D#'', ''E'', ''F'', ''F#'', ''G'', ''G#'', ''A'', ''A#'', ''B'']"

text \<open>\<^verbatim>\<open>std::to_string(int)\<close>: the decimal digits, with a minus sign for a negative value.\<close>

definition digit_char :: "nat \<Rightarrow> char" where
  "digit_char d = ''0123456789'' ! d"

fun nat_to_string :: "nat \<Rightarrow> string" where
  "nat_to_string n =
     (if n < 10 then [digit_char n] else nat_to_string (n div 10) @ [digit_char (n mod 10)])"

definition to_string :: "int \<Rightarrow> string" where
  "to_string i = (if i < 0 then CHR ''-'' # nat_to_string (nat (- i)) else nat_to_string (nat i))"

text \<open>
  \<^verbatim>\<open>getNoteName\<close>. C's \<^verbatim>\<open>/\<close> and \<^verbatim>\<open>%\<close> on \<^verbatim>\<open>int\<close> truncate towards zero: \<open>sdiv\<close> and
  \<open>smod\<close>. The table is indexed only after the range check, so the index is in 0..11.
\<close>

definition getNoteName :: "int \<Rightarrow> string" where
  "getNoteName noteNumber =
     (if noteNumber \<le> 0 \<or> noteNumber > 127 then ''N/A''
      else let octave = (noteNumber sdiv 12) - 1;
               noteIndex = noteNumber smod 12
           in noteNames ! nat noteIndex @ to_string octave)"

subsection \<open>Frequency to MIDI note\<close>

text \<open>
  \<^verbatim>\<open>frequencyToMidiNote\<close> evaluates \<^verbatim>\<open>round(69 + 12 * log2(frequency / 440.0))\<close> in IEEE 754
  binary64 arithmetic and converts the result to \<^verbatim>\<open>int\<close>. A \<^verbatim>\<open>double\<close> is a finite real
  number, an infinity or a NaN (the sign of a zero plays no role here).
\<close>

datatype xdouble = Finite real | PlusInf | MinusInf | NaN

text \<open>
  The rounding of an exact result to binary64, to nearest with ties to even. The
  result is a multiple of the spacing \<open>2 powi (e - 52)\<close>, where \<open>e\<close> is the binary
  exponent of the value, but at least \<open>- 1022\<close>: below \<open>2 powi (- 1022)\<close> the spacing is
  that of the subnormal numbers, and a value of less than half of it rounds to zero.
  A rounded magnitude of \<open>2 ^ 1024\<close> or more overflows to an infinity.
\<close>

definition round_half_even :: "real \<Rightarrow> int" where
  "round_half_even r =
     (let f = \<lfloor>r\<rfloor>; d = r - of_int f
      in if d < 1 / 2 then f else if 1 / 2 < d then f + 1 else if even f then f else f + 1)"

definition binary64 :: "real \<Rightarrow> xdouble" where
  "binary64 x =
     (if x = 0 then Finite 0
      else let e = max \<lfloor>log 2 \<bar>x\<bar>\<rfloor> (- 1022);
               q = 2 powi (e - 52);
               r = of_int (round_half_even (x / q)) * q
           in if 2 ^ 1024 \<le> \<bar>r\<bar> then (if 0 < x then PlusInf else MinusInf) else Finite r)"

text \<open>
  The product and the sum of a finite non-zero constant (12 and 69 are binary64
  numbers) and a \<^verbatim>\<open>double\<close>. Each operation is rounded on its own: the product and
  the sum are not contracted into a fused multiply-add.
\<close>

fun times_double :: "real \<Rightarrow> xdouble \<Rightarrow> xdouble" where
  "times_double c (Finite v) = binary64 (c * v)"
| "times_double c PlusInf = (if 0 < c then PlusInf else if c < 0 then MinusInf else NaN)"
| "times_double c MinusInf = (if 0 < c then MinusInf else if c < 0 then PlusInf else NaN)"
| "times_double c NaN = NaN"

fun plus_double :: "real \<Rightarrow> xdouble \<Rightarrow> xdouble" where
  "plus_double c (Finite v) = binary64 (c + v)"
| "plus_double c PlusInf = PlusInf"
| "plus_double c MinusInf = MinusInf"
| "plus_double c NaN = NaN"

text \<open>
  \<^verbatim>\<open>log2\<close> belongs to the C library, which does not fix its accuracy. It is a parameter
  of the model: \<open>libm_log2 v\<close> is the value the library computes for a positive finite
  \<open>v\<close> other than 1, rounded here to binary64 since the library returns a \<^verbatim>\<open>double\<close>.
  The special cases are those of Annex F of the C standard: \<^verbatim>\<open>log2(1)\<close> is 0,
  \<^verbatim>\<open>log2(0)\<close> is minus infinity, \<^verbatim>\<open>log2\<close> of a negative number or of minus infinity is
  a NaN, and \<^verbatim>\<open>log2\<close> of plus infinity is plus infinity.
\<close>

type_synonym libm = "real \<Rightarrow> real"

fun log2_double :: "libm \<Rightarrow> xdouble \<Rightarrow> xdouble" where
  "log2_double libm_log2 (Finite v) =
     (if v < 0 then NaN else if v = 0 then MinusInf else if v = 1 then Finite 0
      else binary64 (libm_log2 v))"
| "log2_double libm_log2 PlusInf = PlusInf"
| "log2_double libm_log2 MinusInf = NaN"
| "log2_double libm_log2 NaN = NaN"

text \<open>
  C's \<^verbatim>\<open>round\<close> rounds a finite value to the nearest integer, halfway cases away from
  zero; the result is a binary64 number. It returns an infinity or a NaN unchanged.
\<close>

definition c_round :: "real \<Rightarrow> int" where
  "c_round x = (if 0 \<le> x then \<lfloor>x + 1 / 2\<rfloor> else \<lceil>x - 1 / 2\<rceil>)"

fun round_double :: "xdouble \<Rightarrow> xdouble" where
  "round_double (Finite v) = Finite (of_int (c_round v))"
| "round_double PlusInf = PlusInf"
| "round_double MinusInf = MinusInf"
| "round_double NaN = NaN"

text \<open>
  \<^verbatim>\<open>static_cast<int>\<close> of a \<^verbatim>\<open>double\<close> truncates towards zero. The behaviour is undefined
  if the truncated value is not in the range of the 32-bit \<^verbatim>\<open>int\<close>, in particular for an
  infinity or a NaN: the result is then \<open>None\<close>.
\<close>

fun static_cast_int :: "xdouble \<Rightarrow> int option" where
  "static_cast_int (Finite v) =
     (let t = (if 0 \<le> v then \<lfloor>v\<rfloor> else \<lceil>v\<rceil>)
      in if - (2 ^ 31) \<le> t \<and> t \<le> 2 ^ 31 - 1 then Some t else None)"
| "static_cast_int PlusInf = None"
| "static_cast_int MinusInf = None"
| "static_cast_int NaN = None"

text \<open>
  The value of \<^verbatim>\<open>69 + 12 * log2(frequency / 440.0)\<close> for a finite \<open>frequency\<close>, and
  \<^verbatim>\<open>frequencyToMidiNote\<close>.
\<close>

definition noteValue :: "libm \<Rightarrow> real \<Rightarrow> xdouble" where
  "noteValue libm_log2 frequency =
     plus_double 69 (times_double 12 (log2_double libm_log2 (binary64 (frequency / 440))))"

definition frequencyToMidiNote :: "libm \<Rightarrow> real \<Rightarrow> int option" where
  "frequencyToMidiNote libm_log2 frequency =
     (if frequency \<le> 0 then Some 0
      else static_cast_int (round_double (noteValue libm_log2 frequency)))"

text \<open>
  Two conditions on the library's \<^verbatim>\<open>log2\<close>: that it is within \<open>1 / 2 ^ 40\<close> of the
  logarithm, and the weaker one that the note number is defined for every frequency
  of the band. \<open>exactLog2\<close> is the logarithm itself (its value is then rounded to
  binary64, as for a correctly rounded library function).
\<close>

definition log2Accurate :: "libm \<Rightarrow> bool" where
  "log2Accurate libm_log2 = (\<forall>x. 0 < x \<longrightarrow> \<bar>libm_log2 x - log 2 x\<bar> \<le> 1 / 2 ^ 40)"

definition noteDefined :: "libm \<Rightarrow> bool" where
  "noteDefined libm_log2 =
     (\<forall>frequency. MIN_FREQUENCY \<le> frequency \<and> frequency \<le> MAX_FREQUENCY
        \<longrightarrow> frequencyToMidiNote libm_log2 frequency \<noteq> None)"

definition exactLog2 :: libm where
  "exactLog2 x = log 2 x"

section \<open>Spectral analysis\<close>

subsection \<open>The transform\<close>

text \<open>
  \<^verbatim>\<open>fftw_execute\<close> belongs to the external FFTW library. It is a parameter of the
  model: \<open>fftw_execute input i\<close> is the value the library leaves in \<^verbatim>\<open>fftw_output[i]\<close>
  when \<^verbatim>\<open>fftw_input\<close> holds the real parts \<open>input\<close> (the imaginary parts are set to 0).
  \<^verbatim>\<open>fft\<close> zero-pads or truncates its argument to \<open>FFT_SIZE\<close> entries and copies the
  \<open>FFT_SIZE\<close> output entries.
\<close>

type_synonym fftw = "real list \<Rightarrow> nat \<Rightarrow> complex"

definition fft :: "fftw \<Rightarrow> real list \<Rightarrow> complex list" where
  "fft fftw_execute input =
     (let fftw_input = map (\<lambda>i. if i < length input then input ! i else 0) [0..<FFT_SIZE];
          fftw_output = fftw_execute fftw_input
      in map fftw_output [0..<FFT_SIZE])"

subsection \<open>Peak search\<close>

text \<open>
  The part of \<^verbatim>\<open>detectFundamentalFrequency\<close> after the transform. The conversions
  \<^verbatim>\<open>static_cast<int>\<close> act on non-negative values, where truncation is the floor.
\<close>

definition minIndex :: int where
  "minIndex = max 1 \<lfloor>(MIN_FREQUENCY * real FFT_SIZE) / real SAMPLE_RATE\<rfloor>"

definition maxIndexLimit :: "complex list \<Rightarrow> int" where
  "maxIndexLimit fftData =
     min (int (length fftData div 2)) \<lfloor>(MAX_FREQUENCY * real FFT_SIZE) / real SAMPLE_RATE\<rfloor>"

text \<open>
  The \<^verbatim>\<open>for\<close> loop over \<open>i\<close>, as a recursion over the indices still to visit; the pair is
  \<open>(maxMagnitude, maxIndex)\<close>.
\<close>

fun peakScan :: "complex list \<Rightarrow> int list \<Rightarrow> real \<times> int \<Rightarrow> real \<times> int" where
  "peakScan fftData [] (maxMagnitude, maxIndex) = (maxMagnitude, maxIndex)"
| "peakScan fftData (i # rest) (maxMagnitude, maxIndex) =
     (let magnitude = cmod (fftData ! nat i)
      in if magnitude > maxMagnitude then peakScan fftData rest (magnitude, i)
         else peakScan fftData rest (maxMagnitude, maxIndex))"

definition scannedBins :: "complex list \<Rightarrow> int list" where
  "scannedBins fftData = [minIndex..maxIndexLimit fftData - 1]"

definition binFrequency :: "int \<Rightarrow> real" where
  "binFrequency i = (real_of_int i * real SAMPLE_RATE) / real FFT_SIZE"

definition spectralPeak :: "complex list \<Rightarrow> real" where
  "spectralPeak fftData =
     (case peakScan fftData (scannedBins fftData) (0, - 1) of
        (maxMagnitude, maxIndex) \<Rightarrow>
          if maxIndex > 0 \<and> maxMagnitude > SPECTRAL_MAGNITUDE_THRESHOLD then
            let frequency = binFrequency maxIndex
            in if frequency \<ge> MIN_FREQUENCY \<and> frequency \<le> MAX_FREQUENCY then frequency else 0
          else 0)"

definition detectFundamentalFrequency :: "fftw \<Rightarrow> real list \<Rightarrow> real" where
  "detectFundamentalFrequency fftw_execute audioData =
     (if \<not> passesNoiseGate audioData then 0
      else spectralPeak (fft fftw_execute audioData))"

section \<open>The audio callback\<close>

record Detection =
  timeSec :: real
  frequencyHz :: real
  midiNote :: int

text \<open>
  PortMidi is external. \<open>Pm_Message status data1 data2\<close> stands for the packed message
  and \<open>Pm_WriteShort t msg\<close> for one call \<^verbatim>\<open>Pm_WriteShort(midiStream, t, msg)\<close>; the
  field \<open>midiStream\<close> lists the calls made so far, oldest first.
\<close>

datatype PmMessage = Pm_Message int int int

datatype PmWrite = Pm_WriteShort int PmMessage

text \<open>
  The globals read or written by \<^verbatim>\<open>paCallback\<close>, and the detection vector it receives
  through \<^verbatim>\<open>userData\<close>. The \<^verbatim>\<open>int\<close> counters are unbounded integers here: a counter
  grows by one per window, so the 32-bit range is out of reach. \<open>framesProcessed\<close> is
  a \<^verbatim>\<open>uint64_t\<close>.
\<close>

record TranscriberState =
  lastMidiNote :: int
  noteChanged :: bool
  currentMidiNote :: int
  currentFrequency :: real
  noteOffMidiNote :: int
  callbackCount :: nat
  consecutiveDetections :: int
  consecutiveSilences :: int
  pendingMidiNote :: int
  pendingFrequency :: real
  overlapBuffer :: "real list"
  framesProcessed :: "64 word"
  recordedDetections :: "Detection list"
  midiStream :: "PmWrite list"

definition initialState :: TranscriberState where
  "initialState =
     \<lparr>lastMidiNote = 0, noteChanged = False, currentMidiNote = 0, currentFrequency = 0,
      noteOffMidiNote = 0, callbackCount = 0, consecutiveDetections = 0,
      consecutiveSilences = 0, pendingMidiNote = 0, pendingFrequency = 0,
      overlapBuffer = [], framesProcessed = 0, recordedDetections = [], midiStream = []\<rparr>"

subsection \<open>Temporal smoothing\<close>

text \<open>
  The \<^verbatim>\<open>if\<close>/\<^verbatim>\<open>else\<close> under the comment "Temporal smoothing logic", for one window
  with the given detected frequency, note and timestamp.
\<close>

definition temporalSmoothing :: "TranscriberState \<Rightarrow> real \<Rightarrow> int \<Rightarrow> real \<Rightarrow> TranscriberState" where
  "temporalSmoothing st fundamentalFrequency newMidiNote timestampSec =
     (if newMidiNote > 0 \<and> fundamentalFrequency > 200 then
        let st1 = (if newMidiNote = pendingMidiNote st
                   then st\<lparr>consecutiveDetections := consecutiveDetections st + 1\<rparr>
                   else st\<lparr>consecutiveDetections := 1, pendingMidiNote := newMidiNote,
                           pendingFrequency := fundamentalFrequency\<rparr>);
            st2 = st1\<lparr>consecutiveSilences := 0\<rparr>
        in if consecutiveDetections st2 \<ge> CONSECUTIVE_DETECTIONS_REQUIRED
              \<and> newMidiNote \<noteq> lastMidiNote st2
           then
             let st3 = st2\<lparr>recordedDetections := recordedDetections st2 @
                          [\<lparr>timeSec = timestampSec, frequencyHz = fundamentalFrequency,
                            midiNote = newMidiNote\<rparr>]\<rparr>;
                 st4 = (if lastMidiNote st3 > 0
                        then st3\<lparr>midiStream := midiStream st3 @
                                   [Pm_WriteShort 0 (Pm_Message 0x90 (lastMidiNote st3) 0)]\<rparr>
                        else st3);
                 st5 = st4\<lparr>midiStream := midiStream st4 @
                             [Pm_WriteShort 0 (Pm_Message 0x90 newMidiNote 100)]\<rparr>
             in st5\<lparr>lastMidiNote := newMidiNote, currentMidiNote := newMidiNote,
                     currentFrequency := fundamentalFrequency, noteChanged := True\<rparr>
           else st2
      else
        let st1 = st\<lparr>consecutiveSilences := consecutiveSilences st + 1,
                      consecutiveDetections := 0\<rparr>
        in if consecutiveSilences st1 \<ge> CONSECUTIVE_SILENCE_REQUIRED \<and> lastMidiNote st1 > 0
           then st1\<lparr>midiStream := midiStream st1 @
                        [Pm_WriteShort 0 (Pm_Message 0x90 (lastMidiNote st1) 0)],
                    noteOffMidiNote := lastMidiNote st1, lastMidiNote := 0,
                    currentMidiNote := 0, currentFrequency := 0, noteChanged := True\<rparr>
           else st1)"

subsection \<open>One analysis window\<close>

text \<open>
  The timestamp of the window that starts at frame \<open>framesProcessed\<close>:
  \<^verbatim>\<open>(static_cast<double>(framesProcessed) + (FFT_SIZE / 2.0)) / static_cast<double>(SAMPLE_RATE)\<close>.
\<close>

definition timestampSec :: "64 word \<Rightarrow> real" where
  "timestampSec frames = (real (unat frames) + real FFT_SIZE / 2) / real SAMPLE_RATE"

text \<open>
  The analysis of one window inside the \<^verbatim>\<open>while\<close> loop: detection, note number,
  timestamp and the smoothing logic. The result is \<open>None\<close> when the conversion in
  \<^verbatim>\<open>frequencyToMidiNote\<close> has undefined behaviour; the program has no defined state from
  there on.
\<close>

definition analyseWindow ::
    "libm \<Rightarrow> fftw \<Rightarrow> TranscriberState \<Rightarrow> real list \<Rightarrow> TranscriberState option" where
  "analyseWindow libm_log2 fftw_execute st audioWindow =
     (let fundamentalFrequency = detectFundamentalFrequency fftw_execute audioWindow
      in case frequencyToMidiNote libm_log2 fundamentalFrequency of
           None \<Rightarrow> None
         | Some newMidiNote \<Rightarrow>
             Some (temporalSmoothing st fundamentalFrequency newMidiNote
                     (timestampSec (framesProcessed st))))"

text \<open>
  One iteration of the \<^verbatim>\<open>while\<close> loop: copy the first \<open>FFT_SIZE\<close> samples, analyse
  them, pop \<open>HOP_SIZE\<close> samples and advance the frame counter. The loop guard makes
  sure that the buffer holds at least \<open>FFT_SIZE\<close> samples, so no pop meets an empty
  deque.
\<close>

definition processWindow :: "libm \<Rightarrow> fftw \<Rightarrow> TranscriberState \<Rightarrow> TranscriberState option" where
  "processWindow libm_log2 fftw_execute st =
     (let audioWindow = take FFT_SIZE (overlapBuffer st)
      in case analyseWindow libm_log2 fftw_execute st audioWindow of
           None \<Rightarrow> None
         | Some st1 \<Rightarrow>
             Some (st1\<lparr>overlapBuffer := drop HOP_SIZE (overlapBuffer st1),
                        framesProcessed := framesProcessed st1 + of_nat HOP_SIZE\<rparr>))"

lemma overlapBuffer_temporalSmoothing:
  "overlapBuffer (temporalSmoothing st f n t) = overlapBuffer st"
  by (simp add: temporalSmoothing_def Let_def)

lemma overlapBuffer_processWindow:
  "processWindow libm_log2 fftw_execute st = Some st1 \<Longrightarrow>
   overlapBuffer st1 = drop HOP_SIZE (overlapBuffer st)"
  by (auto simp: processWindow_def analyseWindow_def Let_def overlapBuffer_temporalSmoothing
      split: option.splits)

function drainWindows :: "libm \<Rightarrow> fftw \<Rightarrow> TranscriberState \<Rightarrow> TranscriberState option" where
  "drainWindows libm_log2 fftw_execute st =
     (if length (overlapBuffer st) \<ge> FFT_SIZE
      then (case processWindow libm_log2 fftw_execute st of
              None \<Rightarrow> None
            | Some st1 \<Rightarrow> drainWindows libm_log2 fftw_execute st1)
      else Some st)"
  by pat_completeness auto
termination
  by (relation "measure (\<lambda>(l, f, st). length (overlapBuffer st))")
     (auto simp: overlapBuffer_processWindow FFT_SIZE_def HOP_SIZE_def)

definition paCallback ::
    "libm \<Rightarrow> fftw \<Rightarrow> TranscriberState \<Rightarrow> real list \<Rightarrow> TranscriberState option" where
  "paCallback libm_log2 fftw_execute st inputBuffer =
     (let st1 = st\<lparr>overlapBuffer := overlapBuffer st @ inputBuffer\<rparr>
      in case drainWindows libm_log2 fftw_execute st1 of
           None \<Rightarrow> None
         | Some st2 \<Rightarrow> Some (st2\<lparr>callbackCount := callbackCount st2 + 1\<rparr>))"

text \<open>
  PortAudio calls the callback once per input buffer, in order.
\<close>

fun runCallbacks ::
    "libm \<Rightarrow> fftw \<Rightarrow> TranscriberState \<Rightarrow> real list list \<Rightarrow> TranscriberState option" where
  "runCallbacks libm_log2 fftw_execute st [] = Some st"
| "runCallbacks libm_log2 fftw_execute st (inputBuffer # rest) =
     (case paCallback libm_log2 fftw_execute st inputBuffer of
        None \<Rightarrow> None
      | Some st1 \<Rightarrow> runCallbacks libm_log2 fftw_execute st1 rest)"

text \<open>
  The smoothing logic applied to the results \<open>(frequency, note, timestamp)\<close> of a
  sequence of windows, in order.
\<close>

definition feedWindows :: "TranscriberState \<Rightarrow> (real \<times> int \<times> real) list \<Rightarrow> TranscriberState" where
  "feedWindows st windows = foldl (\<lambda>s (f, n, t). temporalSmoothing s f n t) st windows"

section \<open>Observations on the output\<close>

text \<open>
  A monitor for the MIDI output of a monophonic instrument. It reads the messages in
  order, knowing the sounding note (0 for none), and returns the note sounding at the
  end. A message with a positive velocity is a Note-On, one with velocity 0 a Note-Off.
  The monitor fails with \<open>None\<close> on a Note-On while a note is sounding, and on a
  Note-Off that is not for the sounding note (in particular when no note is sounding).
\<close>

fun noteMonitor :: "int \<Rightarrow> PmWrite list \<Rightarrow> int option" where
  "noteMonitor active [] = Some active"
| "noteMonitor active (Pm_WriteShort t (Pm_Message status note velocity) # rest) =
     (if velocity > 0
      then (if active = 0 \<and> note > 0 then noteMonitor note rest else None)
      else (if active > 0 \<and> note = active then noteMonitor 0 rest else None))"

text \<open>The notes of the Note-On messages, in order, and the timestamp of a write.\<close>

fun noteOnNotes :: "PmWrite list \<Rightarrow> int list" where
  "noteOnNotes [] = []"
| "noteOnNotes (Pm_WriteShort t (Pm_Message status note velocity) # rest) =
     (if velocity > 0 then note # noteOnNotes rest else noteOnNotes rest)"

fun pmTimestamp :: "PmWrite \<Rightarrow> int" where
  "pmTimestamp (Pm_WriteShort t msg) = t"

text \<open>
  Two invariants of the state: the MIDI output so far is accepted by the monitor and
  leaves \<open>lastMidiNote\<close> sounding; and the two run counters are not both positive.
\<close>

definition monophonicInv :: "TranscriberState \<Rightarrow> bool" where
  "monophonicInv st = (0 \<le> lastMidiNote st \<and> noteMonitor 0 (midiStream st) = Some (lastMidiNote st))"

definition countersInv :: "TranscriberState \<Rightarrow> bool" where
  "countersInv st = (\<not> (0 < consecutiveDetections st \<and> 0 < consecutiveSilences st))"

text \<open>
  Every logged detection has a frequency above 200 Hz, and the log lists the notes of
  the Note-On messages in order.
\<close>

definition detectionsInv :: "TranscriberState \<Rightarrow> bool" where
  "detectionsInv st =
     (list_all (\<lambda>d. 200 < frequencyHz d) (recordedDetections st)
      \<and> map midiNote (recordedDetections st) = noteOnNotes (midiStream st))"

text \<open>
  The number of windows the loop has processed once \<open>n\<close> samples have arrived:
  one as soon as \<open>FFT_SIZE\<close> samples are there, and one more per further \<open>HOP_SIZE\<close>.
\<close>

definition windowCount :: "nat \<Rightarrow> nat" where
  "windowCount n = (if n < FFT_SIZE then 0 else (n - FFT_SIZE) div HOP_SIZE + 1)"

text \<open>
  The frame counter and the buffer length once \<open>n\<close> samples have arrived and the
  window loop has run.
\<close>

definition framesInv :: "nat \<Rightarrow> TranscriberState \<Rightarrow> bool" where
  "framesInv n st =
     (framesProcessed st = of_nat (windowCount n * HOP_SIZE)
      \<and> length (overlapBuffer st) = n - windowCount n * HOP_SIZE)"

text \<open>
  The band of the specification, read literally: the bins from 1 on whose frequency
  lies in \<open>[MIN_FREQUENCY, MAX_FREQUENCY]\<close>, and the peak estimate over exactly
  these bins (the first bin of largest magnitude, subject to the magnitude floor and
  the range check).
\<close>

definition bandBins :: "complex list \<Rightarrow> int list" where
  "bandBins fftData =
     filter (\<lambda>i. MIN_FREQUENCY \<le> binFrequency i \<and> binFrequency i \<le> MAX_FREQUENCY)
       [1..int (length fftData) - 1]"

definition bandPeak :: "complex list \<Rightarrow> real" where
  "bandPeak fftData =
     (case peakScan fftData (bandBins fftData) (0, - 1) of
        (maxMagnitude, maxIndex) \<Rightarrow>
          if maxIndex > 0 \<and> maxMagnitude > SPECTRAL_MAGNITUDE_THRESHOLD then
            let frequency = binFrequency maxIndex
            in if frequency \<ge> MIN_FREQUENCY \<and> frequency \<le> MAX_FREQUENCY then frequency else 0
          else 0)"

text \<open>
  Four spectral frames of \<open>FFT_SIZE\<close> bins, symmetric as the transform of a real
  signal is. The first has a single component in bin 20 (117.1875 Hz), the second a
  strong component in bin 13 (76.171875 Hz) and a weaker one in bin 100 (585.9375 Hz),
  the third a single component in bin 75 (439.453125 Hz, nearest to the note A4), the
  fourth a single component in bin 341 (1998.046875 Hz).
\<close>

definition lowToneSpectrum :: "complex list" where
  "lowToneSpectrum =
     map (\<lambda>i. if i = 20 \<or> i = FFT_SIZE - 20 then 2048 else 0) [0..<FFT_SIZE]"

definition maskedSpectrum :: "complex list" where
  "maskedSpectrum =
     map (\<lambda>i. if i = 13 \<or> i = FFT_SIZE - 13 then 2048
              else if i = 100 \<or> i = FFT_SIZE - 100 then 1024 else 0)
       [0..<FFT_SIZE]"

definition a4Spectrum :: "complex list" where
  "a4Spectrum = map (\<lambda>i. if i = 75 \<or> i = FFT_SIZE - 75 then 2048 else 0) [0..<FFT_SIZE]"

definition highToneSpectrum :: "complex list" where
  "highToneSpectrum =
     map (\<lambda>i. if i = 341 \<or> i = FFT_SIZE - 341 then 2048 else 0) [0..<FFT_SIZE]"

text \<open>
  A transform that returns \<open>a4Spectrum\<close> whatever its input, and the state after one
  callback that receives \<open>FFT_SIZE\<close> samples of value 1/2 from the initial state, with
  this transform and \<open>exactLog2\<close>.
\<close>

definition a4Transform :: fftw where
  "a4Transform input i = a4Spectrum ! i"

definition a4State :: TranscriberState where
  "a4State =
     \<lparr>lastMidiNote = 69, noteChanged = True, currentMidiNote = 69, currentFrequency = 28125 / 64,
      noteOffMidiNote = 0, callbackCount = 1, consecutiveDetections = 1,
      consecutiveSilences = 0, pendingMidiNote = 69, pendingFrequency = 28125 / 64,
      overlapBuffer = replicate HOP_SIZE (1 / 2), framesProcessed = of_nat HOP_SIZE,
      recordedDetections = [\<lparr>timeSec = 32 / 375, frequencyHz = 28125 / 64, midiNote = 69\<rparr>],
      midiStream = [Pm_WriteShort 0 (Pm_Message 0x90 69 100)]\<rparr>"

section \<open>The detection log\<close>

subsection \<open>Writing numbers\<close>

text \<open>
  \<^verbatim>\<open>main\<close> writes the log with \<^verbatim>\<open>operator<<\<close> of the C++ standard library on a stream
  with default flags. For a \<^verbatim>\<open>double\<close> that is the conversion \<^verbatim>\<open>%g\<close> with precision 6:
  the value is rounded to six significant decimal digits (ties to even), written in
  fixed notation when the decimal exponent \<open>e\<close> of the rounded value satisfies
  \<open>-4 \<le> e < 6\<close> and in scientific notation (exponent of at least two digits)
  otherwise, and trailing zeros of the fraction are removed. The definitions below
  follow that rule on real numbers. \<open>sig6 x\<close> is the six-digit mantissa and the decimal
  exponent of a positive \<open>x\<close>; \<open>render_mant k m\<close> writes \<open>m / 10 ^ k\<close>.
\<close>

primrec dec_digits :: "nat \<Rightarrow> nat \<Rightarrow> string" where
  "dec_digits 0 n = []"
| "dec_digits (Suc k) n = dec_digits k (n div 10) @ [digit_char (n mod 10)]"

definition strip_zeros :: "string \<Rightarrow> string" where
  "strip_zeros s = rev (dropWhile (\<lambda>c. c = CHR ''0'') (rev s))"

definition render_mant :: "nat \<Rightarrow> nat \<Rightarrow> string" where
  "render_mant k m =
     (let fraction = strip_zeros (dec_digits k (m mod 10 ^ k))
      in nat_to_string (m div 10 ^ k) @ (if fraction = [] then [] else CHR ''.'' # fraction))"

definition decExp :: "real \<Rightarrow> int" where
  "decExp x = \<lfloor>log 10 x\<rfloor>"

definition sig6 :: "real \<Rightarrow> nat \<times> int" where
  "sig6 x =
     (let e = decExp x; m = nat (round_half_even (x * 10 powi (5 - e)))
      in if m = 10 ^ 6 then (10 ^ 5, e + 1) else (m, e))"

definition exponent_text :: "int \<Rightarrow> string" where
  "exponent_text e =
     (if e < 0 then CHR ''-'' else CHR ''+'') #
     (if \<bar>e\<bar> < 10 then CHR ''0'' # nat_to_string (nat \<bar>e\<bar>) else nat_to_string (nat \<bar>e\<bar>))"

definition format_pos :: "real \<Rightarrow> string" where
  "format_pos x =
     (case sig6 x of
        (m, e) \<Rightarrow>
          if - 4 \<le> e \<and> e < 6 then render_mant (nat (5 - e)) m
          else render_mant 5 m @ CHR ''e'' # exponent_text e)"

definition format_double :: "real \<Rightarrow> string" where
  "format_double x =
     (if x = 0 then ''0'' else if x < 0 then CHR ''-'' # format_pos (- x) else format_pos x)"

text \<open>
  The loop over \<^verbatim>\<open>recordedDetections\<close> in \<^verbatim>\<open>main\<close>: per detection the three fields,
  separated by commas, and a newline.
\<close>

definition detectionFields :: "Detection \<Rightarrow> string" where
  "detectionFields det =
     format_double (timeSec det) @ '','' @ format_double (frequencyHz det) @ '','' @
     to_string (midiNote det)"

definition writeDetections :: "Detection list \<Rightarrow> string" where
  "writeDetections recorded = concat (map (\<lambda>det. detectionFields det @ [CHR 0x0A]) recorded)"

text \<open>
  The value that six significant digits keep of a number, and of a detection.
\<close>

definition round6 :: "real \<Rightarrow> real" where
  "round6 x =
     (if x = 0 then 0
      else case sig6 \<bar>x\<bar> of (m, e) \<Rightarrow> sgn x * (real m * 10 powi (e - 5)))"

definition roundDetection :: "Detection \<Rightarrow> Detection" where
  "roundDetection det =
     \<lparr>timeSec = round6 (timeSec det), frequencyHz = round6 (frequencyHz det),
      midiNote = midiNote det\<rparr>"

subsection \<open>Reading the log\<close>

text \<open>
  Modelled from the spec: the reader of the detection log. The repository only
  writes the log. The reader follows the format of the specification: lines that
  end in a newline, three fields separated by commas, the first two decimal numbers
  with an optional sign, fraction and exponent, the third a decimal integer.
\<close>

definition is_digit :: "char \<Rightarrow> bool" where
  "is_digit c = (c \<in> set ''0123456789'')"

definition digit_val :: "char \<Rightarrow> nat" where
  "digit_val c = length (takeWhile (\<lambda>x. x \<noteq> c) ''0123456789'')"

definition dec_value :: "string \<Rightarrow> nat" where
  "dec_value s = foldl (\<lambda>a c. 10 * a + digit_val c) 0 s"

fun splitOn :: "char \<Rightarrow> string \<Rightarrow> string list" where
  "splitOn c [] = [[]]"
| "splitOn c (x # xs) =
     (if x = c then [] # splitOn c xs
      else (case splitOn c xs of [] \<Rightarrow> [[x]] | y # ys \<Rightarrow> (x # y) # ys))"

definition parse_nat :: "string \<Rightarrow> nat option" where
  "parse_nat s = (if s \<noteq> [] \<and> list_all is_digit s then Some (dec_value s) else None)"

definition parse_int :: "string \<Rightarrow> int option" where
  "parse_int s =
     (case s of
        [] \<Rightarrow> None
      | c # r \<Rightarrow>
          if c = CHR ''-'' then map_option (\<lambda>n. - int n) (parse_nat r)
          else if c = CHR ''+'' then map_option int (parse_nat r)
          else map_option int (parse_nat s))"

definition parse_mantissa :: "string \<Rightarrow> real option" where
  "parse_mantissa s =
     (case splitOn CHR ''.'' s of
        [i] \<Rightarrow> map_option real (parse_nat i)
      | [i, f] \<Rightarrow>
          (case (parse_nat i, parse_nat f) of
             (Some a, Some b) \<Rightarrow> Some (real a + real b / 10 ^ length f)
           | _ \<Rightarrow> None)
      | _ \<Rightarrow> None)"

definition parse_unsigned :: "string \<Rightarrow> real option" where
  "parse_unsigned s =
     (case splitOn CHR ''e'' s of
        [m] \<Rightarrow> parse_mantissa m
      | [m, x] \<Rightarrow>
          (case (parse_mantissa m, parse_int x) of
             (Some a, Some k) \<Rightarrow> Some (a * 10 powi k)
           | _ \<Rightarrow> None)
      | _ \<Rightarrow> None)"

definition parse_double :: "string \<Rightarrow> real option" where
  "parse_double s =
     (case s of
        [] \<Rightarrow> None
      | c # r \<Rightarrow>
          if c = CHR ''-'' then map_option uminus (parse_unsigned r) else parse_unsigned s)"

definition parse_line :: "string \<Rightarrow> Detection option" where
  "parse_line l =
     (case splitOn CHR '','' l of
        [a, b, c] \<Rightarrow>
          (case (parse_double a, parse_double b, parse_int c) of
             (Some t, Some f, Some n) \<Rightarrow> Some \<lparr>timeSec = t, frequencyHz = f, midiNote = n\<rparr>
           | _ \<Rightarrow> None)
      | _ \<Rightarrow> None)"

definition readLog :: "string \<Rightarrow> Detection list option" where
  "readLog text =
     (case rev (splitOn (CHR 0x0A) text) of
        [] # ls \<Rightarrow> those (map parse_line (rev ls))
      | _ \<Rightarrow> None)"

declare drainWindows.simps [simp del] nat_to_string.simps [simp del]

section \<open>Properties of the helper functions\<close>

subsection \<open>Noise gate\<close>

lemma maxAmplitudeLoop_Max:
  "maxAmplitudeLoop m xs = Max (insert m (abs ` set xs))"
proof (induction xs arbitrary: m)
  case Nil
  then show ?case by simp
next
  case (Cons x xs)
  have fin: "finite (abs ` set xs)" by simp
  have eq: "Max (insert m (insert \<bar>x\<bar> (abs ` set xs))) = max m (Max (insert \<bar>x\<bar> (abs ` set xs)))"
    using fin by simp
  have eq2: "Max (insert \<bar>x\<bar> (insert m (abs ` set xs))) = max \<bar>x\<bar> (Max (insert m (abs ` set xs)))"
    using fin by simp
  have ge1: "\<bar>x\<bar> \<le> Max (insert \<bar>x\<bar> (abs ` set xs))" using fin by simp
  have ge2: "m \<le> Max (insert m (abs ` set xs))" using fin by simp
  show ?case
  proof (cases "\<bar>x\<bar> > m")
    case True
    then have "max m (Max (insert \<bar>x\<bar> (abs ` set xs))) = Max (insert \<bar>x\<bar> (abs ` set xs))"
      using ge1 by linarith
    then show ?thesis using True Cons.IH [of "\<bar>x\<bar>"] eq by simp
  next
    case False
    then have "max \<bar>x\<bar> (Max (insert m (abs ` set xs))) = Max (insert m (abs ` set xs))"
      using ge2 by linarith
    then show ?thesis using False Cons.IH [of m] eq2 by (simp add: insert_commute)
  qed
qed

lemma passesNoiseGate_peak:
  "passesNoiseGate audioData \<longleftrightarrow> peakAmplitude audioData > NOISE_GATE_THRESHOLD"
  by (simp add: passesNoiseGate_def peakAmplitude_def maxAmplitudeLoop_Max)

lemma peakAmplitude_le_iff:
  "peakAmplitude audioData \<le> t \<longleftrightarrow> 0 \<le> t \<and> (\<forall>s \<in> set audioData. \<bar>s\<bar> \<le> t)"
  by (auto simp: peakAmplitude_def)

text \<open>
  C2. A window whose peak absolute amplitude is at most the noise-gate threshold does
  not pass the gate, a window with a larger peak does, and for a window that does not
  pass \<^verbatim>\<open>detectFundamentalFrequency\<close> returns 0.0 whatever the transform would compute.
\<close>

theorem noise_gate_absolute:
  "(\<not> passesNoiseGate audioData \<longleftrightarrow> peakAmplitude audioData \<le> NOISE_GATE_THRESHOLD)
   \<and> (peakAmplitude audioData \<le> NOISE_GATE_THRESHOLD
        \<longrightarrow> (\<forall>fftw_execute. detectFundamentalFrequency fftw_execute audioData = 0))"
  by (simp add: passesNoiseGate_peak detectFundamentalFrequency_def not_less)

theorem noise_gate_absolute_witness:
  "peakAmplitude [1 / 1000, - 4 / 1000, 2 / 1000] \<le> NOISE_GATE_THRESHOLD
   \<and> \<not> passesNoiseGate [1 / 1000, - 4 / 1000, 2 / 1000]
   \<and> (\<forall>fftw_execute. detectFundamentalFrequency fftw_execute [1 / 1000, - 4 / 1000, 2 / 1000] = 0)
   \<and> NOISE_GATE_THRESHOLD < peakAmplitude [1 / 1000, - 1 / 2]
   \<and> passesNoiseGate [1 / 1000, - 1 / 2]"
proof -
  have quiet: "peakAmplitude [1 / 1000, - 4 / 1000, 2 / 1000] \<le> NOISE_GATE_THRESHOLD"
    by (simp add: peakAmplitude_def NOISE_GATE_THRESHOLD_def)
  have loud: "NOISE_GATE_THRESHOLD < peakAmplitude [1 / 1000, - 1 / 2]"
    by (simp add: peakAmplitude_def NOISE_GATE_THRESHOLD_def)
  show ?thesis
    using quiet loud noise_gate_absolute [of "[1 / 1000, - 4 / 1000, 2 / 1000]"]
      noise_gate_absolute [of "[1 / 1000, - 1 / 2]"]
    by (auto simp only: not_le)
qed

subsection \<open>Note names\<close>

lemma sdiv_12_nonneg: "0 \<le> n \<Longrightarrow> n sdiv 12 = n div (12::int)"
  by (simp add: signed_divide_int_def sgn_if)

lemma smod_12_nonneg: "0 \<le> n \<Longrightarrow> n smod 12 = n mod (12::int)"
  by (simp add: signed_modulo_int_def sgn_if)

lemmas getNoteName_eval =
  getNoteName_def noteNames_def to_string_def nat_to_string.simps digit_char_def
  signed_divide_int_def signed_modulo_int_def

lemma to_string_digit:
  "0 \<le> i \<Longrightarrow> i \<le> 9 \<Longrightarrow> to_string i = [''0123456789'' ! nat i]"
  by (simp add: to_string_def nat_to_string.simps digit_char_def)

text \<open>
  C7. For a note number from 1 to 127 \<^verbatim>\<open>getNoteName\<close> is the entry \<open>n mod 12\<close> of the
  twelve-entry table C, C#, D, D#, E, F, F#, G, G#, A, A#, B, followed by the decimal
  string of \<open>n div 12 - 1\<close>, which is "-1" below note 12 and one decimal digit from
  there on; outside 1..127 it is the sentinel "N/A". Note 69 is "A4"; 0 and 128 give
  the sentinel.
\<close>

theorem getNoteName_spec:
  "(1 \<le> n \<and> n \<le> 127 \<longrightarrow> getNoteName n = noteNames ! nat (n mod 12) @ to_string (n div 12 - 1))
   \<and> (n < 1 \<or> 127 < n \<longrightarrow> getNoteName n = ''N/A'')
   \<and> length noteNames = 12 \<and> noteNames ! 0 = ''C''
   \<and> getNoteName 69 = ''A4'' \<and> getNoteName 0 = ''N/A'' \<and> getNoteName 128 = ''N/A''
   \<and> (1 \<le> n \<and> n \<le> 127 \<longrightarrow>
        getNoteName n =
          [''C'', ''C#'', ''D'', ''D#'', ''E'', ''F'', ''F#'', ''G'', ''G#'', ''A'', ''A#'', ''B'']
            ! nat (n mod 12)
          @ (if n < 12 then ''-1'' else [''0123456789'' ! nat (n div 12 - 1)]))
   \<and> noteNames
       = [''C'', ''C#'', ''D'', ''D#'', ''E'', ''F'', ''F#'', ''G'', ''G#'', ''A'', ''A#'', ''B'']
   \<and> (0 \<le> i \<and> i \<le> 9 \<longrightarrow> to_string i = [''0123456789'' ! nat i])
   \<and> to_string (- 1) = ''-1'' \<and> to_string 10 = ''10'' \<and> to_string 127 = ''127''
   \<and> to_string (- 128) = ''-128''"
proof -
  have inside: "getNoteName n = noteNames ! nat (n mod 12) @ to_string (n div 12 - 1)"
    if "1 \<le> n" "n \<le> 127"
    using that by (simp add: getNoteName_def sdiv_12_nonneg smod_12_nonneg)
  have outside: "getNoteName n = ''N/A''" if "n < 1 \<or> 127 < n"
    using that by (auto simp: getNoteName_def)
  have table: "length noteNames = 12" "noteNames ! 0 = ''C''"
    by (simp_all add: noteNames_def)
  have a4: "getNoteName 69 = ''A4''"
    by (simp add: getNoteName_eval)
  have sentinel: "getNoteName 0 = ''N/A''" "getNoteName 128 = ''N/A''"
    by (simp_all add: getNoteName_def)
  have decimal: "to_string (- 1) = ''-1''" "to_string 10 = ''10''" "to_string 127 = ''127''"
      "to_string (- 128) = ''-128''"
    by (simp_all add: to_string_def nat_to_string.simps digit_char_def)
  have literal: "getNoteName n =
          [''C'', ''C#'', ''D'', ''D#'', ''E'', ''F'', ''F#'', ''G'', ''G#'', ''A'', ''A#'', ''B'']
            ! nat (n mod 12)
          @ (if n < 12 then ''-1'' else [''0123456789'' ! nat (n div 12 - 1)])"
    if "1 \<le> n" "n \<le> 127"
  proof (cases "n < 12")
    case True
    then have "n div 12 - 1 = - 1" using that by simp
    then show ?thesis
      using inside [OF that] True decimal(1) by (simp only: noteNames_def if_True)
  next
    case False
    then have "0 \<le> n div 12 - 1" "n div 12 - 1 \<le> 9" using that by simp_all
    from to_string_digit [OF this] show ?thesis
      using inside [OF that] False by (simp only: noteNames_def if_False)
  qed
  have names: "noteNames
       = [''C'', ''C#'', ''D'', ''D#'', ''E'', ''F'', ''F#'', ''G'', ''G#'', ''A'', ''A#'', ''B'']"
    by (simp add: noteNames_def)
  show ?thesis
    using inside outside table a4 sentinel literal names decimal to_string_digit [of i]
    by blast
qed

theorem getNoteName_spec_witness:
  "(1::int) \<le> 61 \<and> (61::int) \<le> 127 \<and> getNoteName 61 = ''C#4''
   \<and> noteNames ! nat (61 mod 12) @ to_string (61 div 12 - 1) = ''C#4''
   \<and> (- 5 :: int) < 1 \<and> getNoteName (- 5) = ''N/A''
   \<and> (1::int) \<le> 1 \<and> (1::int) \<le> 127 \<and> getNoteName 1 = ''C#-1''
   \<and> (1::int) \<le> 127 \<and> (127::int) \<le> 127 \<and> getNoteName 127 = ''G9''
   \<and> (127 :: int) < 200 \<and> getNoteName 200 = ''N/A''
   \<and> (0::int) \<le> 7 \<and> (7::int) \<le> 9 \<and> to_string 7 = ''7''"
proof -
  have lit: "noteNames ! nat (61 mod 12) @ to_string (61 div 12 - 1) = ''C#4''"
    by (simp add: noteNames_def to_string_def nat_to_string.simps digit_char_def)
  have r: "(1::int) \<le> 61 \<and> (61::int) \<le> 127" "(- 5 :: int) < 1 \<or> (127::int) < - 5"
    "(1::int) \<le> 1 \<and> (1::int) \<le> 127" "(1::int) \<le> 127 \<and> (127::int) \<le> 127"
    "(200::int) < 1 \<or> (127::int) < 200" "(0::int) \<le> 7 \<and> (7::int) \<le> 9"
    by simp_all
  have g61: "getNoteName 61 = noteNames ! nat (61 mod 12) @ to_string (61 div 12 - 1)"
    using getNoteName_spec [of 61 7] r(1) by blast
  have g5: "getNoteName (- 5) = ''N/A''"
    using getNoteName_spec [of "- 5" 7] r(2) by blast
  have "getNoteName 1 =
          [''C'', ''C#'', ''D'', ''D#'', ''E'', ''F'', ''F#'', ''G'', ''G#'', ''A'', ''A#'', ''B'']
            ! nat (1 mod 12)
          @ (if (1::int) < 12 then ''-1'' else [''0123456789'' ! nat (1 div 12 - 1)])"
    using getNoteName_spec [of 1 7] r(3) by blast
  then have g1: "getNoteName 1 = ''C#-1''" by simp
  have "getNoteName 127 =
          [''C'', ''C#'', ''D'', ''D#'', ''E'', ''F'', ''F#'', ''G'', ''G#'', ''A'', ''A#'', ''B'']
            ! nat (127 mod 12)
          @ (if (127::int) < 12 then ''-1'' else [''0123456789'' ! nat (127 div 12 - 1)])"
    using getNoteName_spec [of 127 7] r(4) by blast
  then have g127: "getNoteName 127 = ''G9''" by simp
  have g200: "getNoteName 200 = ''N/A''"
    using getNoteName_spec [of 200 7] r(5) by blast
  have "to_string 7 = [''0123456789'' ! nat 7]"
    using getNoteName_spec [of 61 7] r(6) by blast
  then have d7: "to_string 7 = ''7''" by simp
  show ?thesis using lit g61 g5 g1 g127 g200 d7 by simp
qed

subsection \<open>Frequency to MIDI note\<close>

lemma round_half_even_near: "\<bar>real_of_int (round_half_even r) - r\<bar> \<le> 1 / 2"
proof -
  have "real_of_int \<lfloor>r\<rfloor> \<le> r" "r < real_of_int \<lfloor>r\<rfloor> + 1" by linarith+
  then show ?thesis
    by (auto simp: round_half_even_def Let_def)
qed


lemma binary64_error:
  assumes "\<bar>x\<bar> < 2 ^ 1023"
  shows "\<exists>r. binary64 x = Finite r \<and> \<bar>r - x\<bar> \<le> \<bar>x\<bar> / 2 ^ 53 + 1 / 2 ^ 1075"
proof (cases "x = 0")
  case True
  then show ?thesis by (simp add: binary64_def)
next
  case False
  define e0 where "e0 = \<lfloor>log 2 \<bar>x\<bar>\<rfloor>"
  define e where "e = max e0 (- 1022)"
  define q where "q = (2::real) powi (e - 52)"
  define z where "z = round_half_even (x / q)"
  define r where "r = real_of_int z * q"
  have qpos: "0 < q" by (simp add: q_def)
  have apos: "0 < \<bar>x\<bar>" using False by simp
  have lo: "2 powi e0 \<le> \<bar>x\<bar>"
  proof -
    have "2 powr real_of_int e0 \<le> \<bar>x\<bar>"
      using floor_log_eq_powr_iff [of "\<bar>x\<bar>" 2 e0] apos by (simp add: e0_def)
    moreover have "(2::real) powr real_of_int e0 = 2 powi e0"
      by (rule powr_real_of_int') simp_all
    ultimately show ?thesis by simp
  qed
  have qle: "q \<le> \<bar>x\<bar> / 2 ^ 52 + 1 / 2 ^ 1074"
  proof (cases "- 1022 \<le> e0")
    case True
    then have "e = e0" by (simp add: e_def)
    have "(2::real) powi (e0 + - 52) = 2 powi e0 * 2 powi (- 52)"
      by (rule power_int_add) simp
    moreover have "(2::real) powi (- 52) = 1 / 2 ^ 52"
      by (simp add: power_int_def power_divide)
    ultimately have "q = 2 powi e0 / 2 ^ 52" using \<open>e = e0\<close> by (simp add: q_def)
    then have "q \<le> \<bar>x\<bar> / 2 ^ 52" using lo by (simp add: divide_right_mono)
    then show ?thesis by simp
  next
    case False
    then have "e = - 1022" by (simp add: e_def)
    then have "q = 2 powi (- 1074)" by (simp add: q_def)
    also have "\<dots> = 1 / 2 ^ 1074" by (simp add: power_int_def power_divide)
    finally show ?thesis by simp
  qed
  have near: "\<bar>real_of_int z - x / q\<bar> \<le> 1 / 2" unfolding z_def by (rule round_half_even_near)
  have "\<bar>r - x\<bar> = \<bar>real_of_int z - x / q\<bar> * q"
  proof -
    have "r - x = (real_of_int z - x / q) * q" using qpos by (simp add: r_def left_diff_distrib)
    then show ?thesis using qpos by (simp add: abs_mult)
  qed
  then have "\<bar>r - x\<bar> \<le> q / 2" using near qpos by (simp add: mult_right_mono)
  then have err: "\<bar>r - x\<bar> \<le> \<bar>x\<bar> / 2 ^ 53 + 1 / 2 ^ 1075" using qle by simp
  have "\<bar>r\<bar> \<le> \<bar>x\<bar> + \<bar>r - x\<bar>" by linarith
  then have "\<bar>r\<bar> \<le> \<bar>x\<bar> + \<bar>x\<bar> / 2 ^ 53 + 1 / 2 ^ 1075" using err by linarith
  moreover have "\<bar>x\<bar> + \<bar>x\<bar> / 2 ^ 53 + 1 / 2 ^ 1075 < 2 ^ 1024" using assms by simp
  ultimately have fin: "\<not> 2 ^ 1024 \<le> \<bar>r\<bar>" by linarith
  have "binary64 x = Finite r"
    using False fin
    unfolding binary64_def Let_def e0_def [symmetric] e_def [symmetric] q_def [symmetric]
      z_def [symmetric] r_def [symmetric]
    by simp
  then show ?thesis using err by blast
qed


lemma c_round_nearest: "\<bar>x - real_of_int (c_round x)\<bar> \<le> 1 / 2"
proof (cases "0 \<le> x")
  case True
  have "real_of_int \<lfloor>x + 1 / 2\<rfloor> \<le> x + 1 / 2" "x + 1 / 2 < real_of_int \<lfloor>x + 1 / 2\<rfloor> + 1"
    by linarith+
  moreover have "c_round x = \<lfloor>x + 1 / 2\<rfloor>" using True by (simp only: c_round_def if_True)
  ultimately show ?thesis by linarith
next
  case False
  have "real_of_int \<lceil>x - 1 / 2\<rceil> - 1 < x - 1 / 2" "x - 1 / 2 \<le> real_of_int \<lceil>x - 1 / 2\<rceil>"
    by linarith+
  moreover have "c_round x = \<lceil>x - 1 / 2\<rceil>" using False by (simp only: c_round_def if_False)
  ultimately show ?thesis by linarith
qed


lemma binary64_small:
  assumes "\<bar>x\<bar> \<le> 4096"
  shows "\<exists>r. binary64 x = Finite r \<and> \<bar>r - x\<bar> \<le> \<bar>x\<bar> / 2 ^ 53 + 1 / 2 ^ 60"
proof -
  have "\<bar>x\<bar> < 2 ^ 1023" using assms by simp
  from binary64_error [OF this] obtain r where
    r: "binary64 x = Finite r" "\<bar>r - x\<bar> \<le> \<bar>x\<bar> / 2 ^ 53 + 1 / 2 ^ 1075" by blast
  have "(1::real) / 2 ^ 1075 \<le> 1 / 2 ^ 60" by simp
  then show ?thesis using r by force
qed



lemma frequencyToMidiNote_nonpos: "frequency \<le> 0 \<Longrightarrow> frequencyToMidiNote libm_log2 frequency = Some 0"
  by (simp add: frequencyToMidiNote_def)

lemma static_cast_int_of_int:
  "- (2 ^ 31) \<le> k \<Longrightarrow> k \<le> 2 ^ 31 - 1 \<Longrightarrow> static_cast_int (Finite (of_int k)) = Some k"
  by (simp add: Let_def)




lemma ln2_ge_half: "1 / 2 \<le> ln (2::real)"
proof -
  have "exp (1 / 2 :: real) ^ 2 = exp 1" using exp_double [of "1 / 2 :: real"] by simp
  then have "exp (1 / 2 :: real) ^ 2 \<le> 2 ^ 2" using exp_le by simp
  then have "exp (1 / 2 :: real) \<le> 2" by (rule power2_le_imp_le) simp
  moreover have "1 / 2 \<le> ln (2::real) \<longleftrightarrow> exp (1 / 2 :: real) \<le> 2" by (intro ln_ge_iff) simp
  ultimately show ?thesis by blast
qed

lemma log2_perturb:
  fixes x r :: real
  assumes x: "0 < x" and d: "\<bar>r - x\<bar> \<le> x / 2 ^ 50"
  shows "0 < r \<and> \<bar>log 2 r - log 2 x\<bar> \<le> 1 / 2 ^ 48"
proof -
  define \<delta> where "\<delta> = (r - x) / x"
  have rx: "r = x * (1 + \<delta>)" using x by (simp add: \<delta>_def field_simps)
  have "\<bar>\<delta>\<bar> = \<bar>r - x\<bar> / x" using x by (simp add: \<delta>_def)
  also have "\<dots> \<le> (x / 2 ^ 50) / x" using d x by (simp add: divide_right_mono)
  also have "\<dots> = 1 / 2 ^ 50" using x by simp
  finally have db: "\<bar>\<delta>\<bar> \<le> 1 / 2 ^ 50" .
  then have half: "\<bar>\<delta>\<bar> \<le> 1 / 2" by simp
  have pos1: "0 < 1 + \<delta>" using half by linarith
  have rpos: "0 < r" unfolding rx using x pos1 by simp
  have "\<bar>ln (1 + \<delta>) - \<delta>\<bar> \<le> 2 * \<delta>\<^sup>2" by (rule abs_ln_one_plus_x_minus_x_bound [OF half])
  moreover have "2 * \<delta>\<^sup>2 \<le> \<bar>\<delta>\<bar>"
  proof -
    have "\<delta>\<^sup>2 = \<bar>\<delta>\<bar> * \<bar>\<delta>\<bar>" by (simp add: power2_eq_square)
    also have "\<dots> \<le> \<bar>\<delta>\<bar> * (1 / 2)" using half by (intro mult_left_mono) simp_all
    finally show ?thesis by simp
  qed
  ultimately have lnb: "\<bar>ln (1 + \<delta>)\<bar> \<le> 2 * \<bar>\<delta>\<bar>" by linarith
  have "log 2 r = log 2 x + log 2 (1 + \<delta>)" unfolding rx using x pos1 by (simp add: log_mult_pos)
  then have "\<bar>log 2 r - log 2 x\<bar> = \<bar>ln (1 + \<delta>)\<bar> / ln 2" by (simp add: log_def)
  also have "\<dots> \<le> (2 * \<bar>\<delta>\<bar>) / ln 2" using lnb by (simp add: divide_right_mono)
  also have "\<dots> \<le> (2 * \<bar>\<delta>\<bar>) / (1 / 2)"
    using ln2_ge_half by (intro divide_left_mono) simp_all
  also have "\<dots> = 4 * \<bar>\<delta>\<bar>" by simp
  also have "\<dots> \<le> 1 / 2 ^ 48" using db by simp
  finally show ?thesis using rpos by blast
qed

lemma log2_range:
  fixes x :: real
  assumes lo: "1 / 512 \<le> x" and hi: "x \<le> 4096"
  shows "- 9 \<le> log 2 x \<and> log 2 x \<le> 12"
proof -
  have pos: "0 < x" using lo by linarith
  have "(2::real) powr (- 9) = 1 / 512" by (simp add: powr_minus_divide)
  then have "2 powr (- 9) \<le> x" using lo by simp
  moreover have "- 9 \<le> log 2 x \<longleftrightarrow> 2 powr (- 9) \<le> x"
    using pos by (intro le_log_iff) simp_all
  ultimately have a: "- 9 \<le> log 2 x" by blast
  have "(2::real) powr 12 = 4096" by simp
  then have "x \<le> 2 powr 12" using hi by simp
  moreover have "log 2 x \<le> 12 \<longleftrightarrow> x \<le> 2 powr 12"
    using pos by (intro log_le_iff) simp_all
  ultimately have "log 2 x \<le> 12" by blast
  then show ?thesis using a by blast
qed


lemma noteValue_accurate:
  assumes acc: "log2Accurate libm_log2" and lo: "1 \<le> f" and hi: "f \<le> 2 ^ 20"
  shows "\<exists>v. noteValue libm_log2 f = Finite v
             \<and> \<bar>v - (69 + 12 * log 2 (f / 440))\<bar> \<le> 1 / 2 ^ 36
             \<and> \<bar>v\<bar> \<le> 240"
proof -
  define x where "x = f / 440"
  define L where "L = log 2 x"
  define a where "a = (1::real) / 2 ^ 40"
  define b where "b = (1::real) / 2 ^ 48"
  define c where "c = (1::real) / 2 ^ 45"
  have num: "0 \<le> a" "0 \<le> b" "0 \<le> c" "a + b + b \<le> 1" "c \<le> 1"
    "c + c + 12 * (a + b + b) \<le> 1 / 2 ^ 36"
    by (simp_all add: a_def b_def c_def)
  have xr: "1 / 512 \<le> x" "x \<le> 4096" using lo hi by (simp_all add: x_def)
  have xpos: "0 < x" using xr by linarith
  have Lr: "- 9 \<le> L" "L \<le> 12" using log2_range [OF xr] by (simp_all add: L_def)
  obtain r1 where r1: "binary64 x = Finite r1" and e1: "\<bar>r1 - x\<bar> \<le> \<bar>x\<bar> / 2 ^ 53 + 1 / 2 ^ 60"
    using binary64_small [of x] xr xpos by auto
  have "\<bar>r1 - x\<bar> \<le> x / 2 ^ 50" using e1 xr xpos by simp
  from log2_perturb [OF xpos this]
  have r1pos: "0 < r1" and pert: "\<bar>log 2 r1 - L\<bar> \<le> b" by (simp_all add: L_def b_def)
  define y0 where "y0 = (if r1 = 1 then 0 else libm_log2 r1)"
  have "\<bar>y0 - log 2 r1\<bar> \<le> a"
    using acc r1pos by (simp add: y0_def log2Accurate_def a_def)
  then have y0L: "\<bar>y0 - L\<bar> \<le> a + b" using pert by linarith
  then have y0b: "\<bar>y0\<bar> \<le> 13" using Lr num by linarith
  obtain yv where yv: "log2_double libm_log2 (Finite r1) = Finite yv"
    and ey: "\<bar>yv - y0\<bar> \<le> b"
  proof (cases "r1 = 1")
    case True
    then have "log2_double libm_log2 (Finite r1) = Finite 0" "\<bar>0 - y0\<bar> \<le> b"
      using num by (simp_all add: y0_def)
    then show ?thesis using that by blast
  next
    case False
    then have y0': "y0 = libm_log2 r1" by (simp add: y0_def)
    obtain w where w: "binary64 y0 = Finite w" "\<bar>w - y0\<bar> \<le> \<bar>y0\<bar> / 2 ^ 53 + 1 / 2 ^ 60"
      using binary64_small [of y0] y0b by auto
    have "log2_double libm_log2 (Finite r1) = Finite w"
      using False r1pos w(1) by (simp add: y0')
    moreover have "\<bar>y0\<bar> / 2 ^ 53 + 1 / 2 ^ 60 \<le> b" using y0b by (simp add: b_def)
    then have "\<bar>w - y0\<bar> \<le> b" using w(2) by linarith
    ultimately show ?thesis using that by blast
  qed
  have yL: "\<bar>yv - L\<bar> \<le> a + b + b" using ey y0L by linarith
  then have yb: "\<bar>yv\<bar> \<le> 13" using Lr num by linarith
  then have yb12: "\<bar>12 * yv\<bar> \<le> 156" by simp
  obtain p where p: "binary64 (12 * yv) = Finite p"
    and ep: "\<bar>p - 12 * yv\<bar> \<le> \<bar>12 * yv\<bar> / 2 ^ 53 + 1 / 2 ^ 60"
    using binary64_small [of "12 * yv"] yb12 by auto
  have "\<bar>12 * yv\<bar> / 2 ^ 53 + 1 / 2 ^ 60 \<le> c" using yb12 by (simp add: c_def)
  then have ep': "\<bar>p - 12 * yv\<bar> \<le> c" using ep by linarith
  have pb: "\<bar>69 + p\<bar> \<le> 226" using ep' yb12 num by linarith
  obtain v where v: "binary64 (69 + p) = Finite v"
    and ev: "\<bar>v - (69 + p)\<bar> \<le> \<bar>69 + p\<bar> / 2 ^ 53 + 1 / 2 ^ 60"
    using binary64_small [of "69 + p"] pb by auto
  have "\<bar>69 + p\<bar> / 2 ^ 53 + 1 / 2 ^ 60 \<le> c" using pb by (simp add: c_def)
  then have ev': "\<bar>v - (69 + p)\<bar> \<le> c" using ev by linarith
  have val: "noteValue libm_log2 f = Finite v"
    unfolding noteValue_def x_def [symmetric] r1 yv by (simp add: p v)
  have "\<bar>p - 12 * L\<bar> \<le> c + 12 * (a + b + b)" using ep' yL by argo
  then have "\<bar>v - (69 + 12 * L)\<bar> \<le> c + c + 12 * (a + b + b)" using ev' by linarith
  then have err: "\<bar>v - (69 + 12 * L)\<bar> \<le> 1 / 2 ^ 36" using num by linarith
  have "\<bar>v\<bar> \<le> 240" using ev' pb num by linarith
  then show ?thesis using val err unfolding L_def x_def by blast
qed

lemma frequencyToMidiNote_accurate:
  assumes acc: "log2Accurate libm_log2" and lo: "1 \<le> f" and hi: "f \<le> 2 ^ 20"
  shows "\<exists>n. frequencyToMidiNote libm_log2 f = Some n
             \<and> \<bar>69 + 12 * log 2 (f / 440) - real_of_int n\<bar> \<le> 1 / 2 + 1 / 2 ^ 36"
proof -
  obtain v where val: "noteValue libm_log2 f = Finite v"
    and err: "\<bar>v - (69 + 12 * log 2 (f / 440))\<bar> \<le> 1 / 2 ^ 36" and vb: "\<bar>v\<bar> \<le> 240"
    using noteValue_accurate [OF acc lo hi] by blast
  define n where "n = c_round v"
  have near: "\<bar>v - real_of_int n\<bar> \<le> 1 / 2" unfolding n_def by (rule c_round_nearest)
  then have "\<bar>real_of_int n\<bar> \<le> 241" using vb by linarith
  then have "- 241 \<le> n \<and> n \<le> 241" by linarith
  then have "static_cast_int (Finite (of_int n)) = Some n"
    by (intro static_cast_int_of_int) simp_all
  then have "frequencyToMidiNote libm_log2 f = Some n"
    using lo by (simp add: frequencyToMidiNote_def val n_def)
  moreover have "\<bar>69 + 12 * log 2 (f / 440) - real_of_int n\<bar> \<le> 1 / 2 + 1 / 2 ^ 36"
    using near err by linarith
  ultimately show ?thesis by blast
qed

lemma log2Accurate_exactLog2: "log2Accurate exactLog2"
  by (simp add: log2Accurate_def exactLog2_def)

lemma noteDefined_accurate: "log2Accurate libm_log2 \<Longrightarrow> noteDefined libm_log2"
proof -
  assume acc: "log2Accurate libm_log2"
  have "frequencyToMidiNote libm_log2 f \<noteq> None" if "80 \<le> f" "f \<le> 2000" for f
  proof -
    have "1 \<le> f" "f \<le> 2 ^ 20" using that by simp_all
    from frequencyToMidiNote_accurate [OF acc this] show ?thesis by auto
  qed
  then show ?thesis by (simp add: noteDefined_def MIN_FREQUENCY_def MAX_FREQUENCY_def)
qed

lemma log2_lower:
  fixes x :: real
  assumes x: "0 < x" and p: "1 / 2 < x ^ 48"
  shows "- (1 / 48) < log 2 x"
proof -
  have "(2 powr (- (1 / 48)) :: real) ^ 48 = 2 powr (- 1)"
    by (simp add: powr_power)
  also have "\<dots> = 1 / 2" by (simp add: powr_minus_divide)
  finally have "(2 powr (- (1 / 48)) :: real) ^ 48 < x ^ 48" using p by simp
  then have "2 powr (- (1 / 48)) < x"
    using x by (meson less_eq_real_def power_less_imp_less_base)
  moreover have "- (1 / 48) < log 2 x \<longleftrightarrow> 2 powr (- (1 / 48)) < x"
    using x by (intro less_log_iff) simp_all
  ultimately show ?thesis by blast
qed

lemma log2_upper:
  fixes x :: real
  assumes x: "0 < x" and p: "x ^ 48 < 2"
  shows "log 2 x < 1 / 48"
proof -
  have "(2 powr (1 / 48) :: real) ^ 48 = 2"
    by (simp add: powr_power)
  then have "x ^ 48 < (2 powr (1 / 48) :: real) ^ 48" using p by simp
  then have "x < 2 powr (1 / 48)"
    by (meson less_eq_real_def power_less_imp_less_base powr_ge_zero)
  moreover have "log 2 x < 1 / 48 \<longleftrightarrow> x < 2 powr (1 / 48)"
    using x by (intro log_less_iff) simp_all
  ultimately show ?thesis by blast
qed

lemma frequencyToMidiNote_near_a4:
  assumes acc: "log2Accurate libm_log2" and f: "1 \<le> f" "f \<le> 2 ^ 20"
    and lo: "1 / 2 < (f / 440) ^ 48" and hi: "(f / 440) ^ 48 < 2"
  shows "frequencyToMidiNote libm_log2 f = Some 69"
proof -
  have pos: "0 < f / 440" using f by simp
  have l: "- (1 / 48) < log 2 (f / 440)" by (rule log2_lower [OF pos lo])
  have u: "log 2 (f / 440) < 1 / 48" by (rule log2_upper [OF pos hi])
  obtain n where n: "frequencyToMidiNote libm_log2 f = Some n"
    and near: "\<bar>69 + 12 * log 2 (f / 440) - real_of_int n\<bar> \<le> 1 / 2 + 1 / 2 ^ 36"
    using frequencyToMidiNote_accurate [OF acc f] by blast
  have "(1::real) / 2 + 1 / 2 ^ 36 < 3 / 4" by simp
  then have "\<bar>real_of_int n - 69\<bar> < 1" using near l u by linarith
  then have "n = 69" by linarith
  then show ?thesis using n by simp
qed

lemma frequencyToMidiNote_bin75: "frequencyToMidiNote exactLog2 (28125 / 64) = Some 69"
  by (rule frequencyToMidiNote_near_a4 [OF log2Accurate_exactLog2]) (simp_all add: power_divide)

lemma noteDefined_exactLog2: "noteDefined exactLog2"
  by (rule noteDefined_accurate [OF log2Accurate_exactLog2])











section \<open>The peak search\<close>

lemma minIndex_eq: "minIndex = 13"
  by (simp add: minIndex_def MIN_FREQUENCY_def FFT_SIZE_def SAMPLE_RATE_def)

lemma maxIndexLimit_eq: "maxIndexLimit fftData = min (int (length fftData div 2)) 341"
  by (simp add: maxIndexLimit_def MAX_FREQUENCY_def FFT_SIZE_def SAMPLE_RATE_def)

lemma scannedBins_eq: "scannedBins fftData = [13..min (int (length fftData div 2)) 341 - 1]"
  by (simp add: scannedBins_def minIndex_eq maxIndexLimit_eq)

lemma binFrequency_eq: "binFrequency i = real_of_int i * (375 / 64)"
  by (simp add: binFrequency_def SAMPLE_RATE_def FFT_SIZE_def)

lemma binFrequency_ge_iff: "MIN_FREQUENCY \<le> binFrequency i \<longleftrightarrow> 14 \<le> i"
proof (cases "14 \<le> i")
  case True
  then have "(14::real) \<le> real_of_int i" by linarith
  then show ?thesis using True by (simp add: binFrequency_eq MIN_FREQUENCY_def)
next
  case False
  then have "real_of_int i \<le> 13" by linarith
  then show ?thesis using False by (simp add: binFrequency_eq MIN_FREQUENCY_def)
qed

lemma binFrequency_le_iff: "binFrequency i \<le> MAX_FREQUENCY \<longleftrightarrow> i \<le> 341"
proof (cases "i \<le> 341")
  case True
  then have "real_of_int i \<le> 341" by linarith
  then show ?thesis using True by (simp add: binFrequency_eq MAX_FREQUENCY_def)
next
  case False
  then have "(342::real) \<le> real_of_int i" by linarith
  then show ?thesis using False by (simp add: binFrequency_eq MAX_FREQUENCY_def)
qed

lemma filter_upto_range:
  "filter (\<lambda>i. a \<le> i \<and> i \<le> b) [l..u] = [max a l..min b u]"
proof (induction l u rule: upto.induct)
  case (1 i j)
  show ?case
  proof (cases "i \<le> j")
    case True
    then have unf: "[i..j] = i # [i + 1..j]" by (simp add: upto_rec1)
    have IH: "filter (\<lambda>i. a \<le> i \<and> i \<le> b) [i + 1..j] = [max a (i + 1)..min b j]"
      using 1 True by simp
    show ?thesis
    proof (cases "a \<le> i \<and> i \<le> b")
      case inb: True
      have m1: "max a i = i" "max a (i + 1) = i + 1" using inb by simp_all
      have "i \<le> min b j" using inb True by simp
      then have "[i..min b j] = i # [i + 1..min b j]" by (simp add: upto_rec1)
      then show ?thesis using inb unf IH m1 by simp
    next
      case outb: False
      have "[max a i..min b j] = [max a (i + 1)..min b j]"
      proof (cases "a \<le> i")
        case True
        then have "b < i" using outb by simp
        then have "min b j < max a i" "min b j < max a (i + 1)" by simp_all
        then show ?thesis by simp
      next
        case False
        then have "max a i = a" "max a (i + 1) = a" by simp_all
        then show ?thesis by simp
      qed
      then show ?thesis using outb unf IH by auto
    qed
  next
    case False
    then have "min b j < max a i" by simp
    then show ?thesis using False by simp
  qed
qed

lemma bandBins_eq: "bandBins fftData = [14..min 341 (int (length fftData) - 1)]"
  by (simp add: bandBins_def binFrequency_ge_iff binFrequency_le_iff filter_upto_range)

lemma peakScan_char:
  "peakScan fftData bins (m, k) = (m', k') \<Longrightarrow> sorted_wrt (<) bins \<Longrightarrow>
   m \<le> m' \<and> (\<forall>j \<in> set bins. cmod (fftData ! nat j) \<le> m') \<and>
   ((m' = m \<and> k' = k) \<or>
    (k' \<in> set bins \<and> m' = cmod (fftData ! nat k') \<and> m < m' \<and>
     (\<forall>j \<in> set bins. j < k' \<longrightarrow> cmod (fftData ! nat j) < m')))"
proof (induction bins arbitrary: m k)
  case Nil
  then show ?case by simp
next
  case (Cons i rest)
  have sorted: "sorted_wrt (<) rest" and least: "\<forall>j \<in> set rest. i < j"
    using Cons.prems(2) by simp_all
  show ?case
  proof (cases "cmod (fftData ! nat i) > m")
    case True
    then have "peakScan fftData rest (cmod (fftData ! nat i), i) = (m', k')"
      using Cons.prems(1) by simp
    from Cons.IH [OF this sorted] True least show ?thesis
      by (elim conjE disjE) (auto intro: less_imp_le)
  next
    case False
    then have "peakScan fftData rest (m, k) = (m', k')"
      using Cons.prems(1) by simp
    from Cons.IH [OF this sorted] False least show ?thesis
      by (elim conjE disjE) (auto simp: not_less)
  qed
qed


lemma sorted_upto: "sorted_wrt (<) [a..b]"
  using sorted_wrt_upto [of a b] by simp

lemma peakScan_eqI:
  assumes sorted: "sorted_wrt (<) bins"
    and k: "k \<in> set bins"
    and pos: "0 < cmod (fftData ! nat k)"
    and maxi: "\<forall>j \<in> set bins. cmod (fftData ! nat j) \<le> cmod (fftData ! nat k)"
    and first: "\<forall>j \<in> set bins. j < k \<longrightarrow> cmod (fftData ! nat j) < cmod (fftData ! nat k)"
  shows "peakScan fftData bins (0, - 1) = (cmod (fftData ! nat k), k)"
proof -
  obtain m' k' where res: "peakScan fftData bins (0, - 1) = (m', k')"
    by (cases "peakScan fftData bins (0, - 1)")
  note ch = peakScan_char [OF res sorted]
  have all: "\<forall>j \<in> set bins. cmod (fftData ! nat j) \<le> m'" using ch by blast
  have "\<not> (m' = 0 \<and> k' = - 1)" using all k pos by force
  then have k': "k' \<in> set bins" and m': "m' = cmod (fftData ! nat k')"
    and before: "\<forall>j \<in> set bins. j < k' \<longrightarrow> cmod (fftData ! nat j) < m'"
    using ch by blast+
  have "k' = k"
  proof (rule ccontr)
    assume "k' \<noteq> k"
    then consider "k < k'" | "k' < k" by linarith
    then show False
    proof cases
      case 1
      then have "cmod (fftData ! nat k) < m'" using before k by blast
      moreover have "m' \<le> cmod (fftData ! nat k)" using maxi k' m' by blast
      ultimately show False by simp
    next
      case 2
      then have "cmod (fftData ! nat k') < cmod (fftData ! nat k)" using first k' by blast
      moreover have "cmod (fftData ! nat k) \<le> m'" using all k by blast
      ultimately show False using m' by simp
    qed
  qed
  then show ?thesis using res m' by simp
qed

lemma set_scannedBins: "i \<in> set (scannedBins fftData) \<Longrightarrow> 13 \<le> i \<and> i \<le> 340 \<and> i < int (length fftData div 2)"
  by (auto simp: scannedBins_eq)

lemma spectralPeak_eqI:
  assumes k: "k \<in> set (scannedBins fftData)"
    and floor: "SPECTRAL_MAGNITUDE_THRESHOLD < cmod (fftData ! nat k)"
    and maxi: "\<forall>j \<in> set (scannedBins fftData). cmod (fftData ! nat j) \<le> cmod (fftData ! nat k)"
    and first: "\<forall>j \<in> set (scannedBins fftData). j < k \<longrightarrow> cmod (fftData ! nat j) < cmod (fftData ! nat k)"
  shows "spectralPeak fftData =
    (if MIN_FREQUENCY \<le> binFrequency k \<and> binFrequency k \<le> MAX_FREQUENCY then binFrequency k else 0)"
proof -
  have pos: "0 < cmod (fftData ! nat k)"
    using floor unfolding SPECTRAL_MAGNITUDE_THRESHOLD_def by linarith
  have "peakScan fftData (scannedBins fftData) (0, - 1) = (cmod (fftData ! nat k), k)"
    by (rule peakScan_eqI [OF _ k pos maxi first]) (simp add: scannedBins_def sorted_upto)
  moreover have "0 < k" using set_scannedBins [OF k] by simp
  ultimately show ?thesis using floor by (simp add: spectralPeak_def Let_def)
qed

lemma spectralPeak_nonzero:
  assumes nz: "spectralPeak fftData \<noteq> 0"
  shows "\<exists>k \<in> set (scannedBins fftData).
           spectralPeak fftData = binFrequency k
           \<and> MIN_FREQUENCY \<le> binFrequency k \<and> binFrequency k \<le> MAX_FREQUENCY
           \<and> SPECTRAL_MAGNITUDE_THRESHOLD < cmod (fftData ! nat k)
           \<and> (\<forall>j \<in> set (scannedBins fftData). cmod (fftData ! nat j) \<le> cmod (fftData ! nat k))
           \<and> (\<forall>j \<in> set (scannedBins fftData). j < k \<longrightarrow> cmod (fftData ! nat j) < cmod (fftData ! nat k))"
proof -
  obtain m' k' where res: "peakScan fftData (scannedBins fftData) (0, - 1) = (m', k')"
    by (cases "peakScan fftData (scannedBins fftData) (0, - 1)")
  have sorted: "sorted_wrt (<) (scannedBins fftData)"
    by (simp add: scannedBins_def sorted_upto)
  note ch = peakScan_char [OF res sorted]
  have sel: "0 < k'" "SPECTRAL_MAGNITUDE_THRESHOLD < m'"
    "MIN_FREQUENCY \<le> binFrequency k'" "binFrequency k' \<le> MAX_FREQUENCY"
    "spectralPeak fftData = binFrequency k'"
    using nz res by (auto simp: spectralPeak_def Let_def split: if_splits)
  then have "\<not> (m' = 0 \<and> k' = - 1)" by auto
  then have "k' \<in> set (scannedBins fftData)" "m' = cmod (fftData ! nat k')"
    "\<forall>j \<in> set (scannedBins fftData). cmod (fftData ! nat j) \<le> m'"
    "\<forall>j \<in> set (scannedBins fftData). j < k' \<longrightarrow> cmod (fftData ! nat j) < m'"
    using ch by blast+
  then show ?thesis using sel by blast
qed

lemma spectralPeak_zero:
  assumes z: "spectralPeak fftData = 0"
  shows "(\<forall>j \<in> set (scannedBins fftData). cmod (fftData ! nat j) \<le> SPECTRAL_MAGNITUDE_THRESHOLD)
         \<or> (13 \<in> set (scannedBins fftData) \<and> SPECTRAL_MAGNITUDE_THRESHOLD < cmod (fftData ! 13)
              \<and> (\<forall>j \<in> set (scannedBins fftData). cmod (fftData ! nat j) \<le> cmod (fftData ! 13)))"
proof -
  obtain m' k' where res: "peakScan fftData (scannedBins fftData) (0, - 1) = (m', k')"
    by (cases "peakScan fftData (scannedBins fftData) (0, - 1)")
  have sorted: "sorted_wrt (<) (scannedBins fftData)"
    by (simp add: scannedBins_def sorted_upto)
  note ch = peakScan_char [OF res sorted]
  have all: "\<forall>j \<in> set (scannedBins fftData). cmod (fftData ! nat j) \<le> m'" using ch by blast
  show ?thesis
  proof (cases "SPECTRAL_MAGNITUDE_THRESHOLD < m'")
    case False
    then show ?thesis using all by force
  next
    case True
    then have "\<not> (m' = 0 \<and> k' = - 1)" by (simp add: SPECTRAL_MAGNITUDE_THRESHOLD_def)
    then have k': "k' \<in> set (scannedBins fftData)" and m': "m' = cmod (fftData ! nat k')"
      using ch by blast+
    have range: "13 \<le> k'" "k' \<le> 340" using set_scannedBins [OF k'] by simp_all
    have "\<not> (MIN_FREQUENCY \<le> binFrequency k' \<and> binFrequency k' \<le> MAX_FREQUENCY)"
    proof
      assume inb: "MIN_FREQUENCY \<le> binFrequency k' \<and> binFrequency k' \<le> MAX_FREQUENCY"
      then have "spectralPeak fftData = binFrequency k'"
        using res True range by (simp add: spectralPeak_def Let_def)
      then show False using z inb by (simp add: MIN_FREQUENCY_def)
    qed
    then have "k' = 13" using range by (simp add: binFrequency_ge_iff binFrequency_le_iff)
    then show ?thesis using k' m' all True by simp
  qed
qed

lemma length_lowTone: "length lowToneSpectrum = FFT_SIZE"
  by (simp add: lowToneSpectrum_def)

lemma cmod_lowTone:
  "i \<le> 341 \<Longrightarrow> cmod (lowToneSpectrum ! i) = (if i = 20 then 2048 else 0)"
  by (simp add: lowToneSpectrum_def FFT_SIZE_def del: upt_rec_numeral)

lemma length_masked: "length maskedSpectrum = FFT_SIZE"
  by (simp add: maskedSpectrum_def)

lemma cmod_masked:
  "i \<le> 341 \<Longrightarrow>
   cmod (maskedSpectrum ! i) = (if i = 13 then 2048 else if i = 100 then 1024 else 0)"
  by (simp add: maskedSpectrum_def FFT_SIZE_def del: upt_rec_numeral)

lemma scannedBins_full: "length fftData = FFT_SIZE \<Longrightarrow> set (scannedBins fftData) = {13..340}"
  by (simp add: scannedBins_eq FFT_SIZE_def del: upto_rec_numeral)

lemma bandBins_full: "length fftData = FFT_SIZE \<Longrightarrow> bandBins fftData = [14..341]"
  by (simp add: bandBins_eq FFT_SIZE_def del: upto_rec_numeral)

lemma spectralPeak_lowTone: "spectralPeak lowToneSpectrum = 1875 / 16"
proof -
  note bins = scannedBins_full [OF length_lowTone]
  have "spectralPeak lowToneSpectrum =
    (if MIN_FREQUENCY \<le> binFrequency 20 \<and> binFrequency 20 \<le> MAX_FREQUENCY then binFrequency 20 else 0)"
    by (rule spectralPeak_eqI)
       (auto simp: bins cmod_lowTone nat_eq_iff SPECTRAL_MAGNITUDE_THRESHOLD_def)
  then show ?thesis by (simp add: binFrequency_eq MIN_FREQUENCY_def MAX_FREQUENCY_def)
qed

lemma spectralPeak_masked: "spectralPeak maskedSpectrum = 0"
proof -
  note bins = scannedBins_full [OF length_masked]
  have "spectralPeak maskedSpectrum =
    (if MIN_FREQUENCY \<le> binFrequency 13 \<and> binFrequency 13 \<le> MAX_FREQUENCY then binFrequency 13 else 0)"
    by (rule spectralPeak_eqI)
       (auto simp: bins cmod_masked nat_eq_iff SPECTRAL_MAGNITUDE_THRESHOLD_def)
  then show ?thesis by (simp add: binFrequency_eq MIN_FREQUENCY_def MAX_FREQUENCY_def)
qed

lemma bandPeak_masked: "bandPeak maskedSpectrum = 9375 / 16"
proof -
  have "peakScan maskedSpectrum [14..341] (0, - 1) = (cmod (maskedSpectrum ! nat 100), 100)"
    by (rule peakScan_eqI) (auto simp: sorted_upto cmod_masked nat_eq_iff simp del: upto_rec_numeral)
  then show ?thesis
    by (simp add: bandPeak_def bandBins_full [OF length_masked] cmod_masked binFrequency_eq
        SPECTRAL_MAGNITUDE_THRESHOLD_def MIN_FREQUENCY_def MAX_FREQUENCY_def del: upto_rec_numeral)
qed

lemma length_highTone: "length highToneSpectrum = FFT_SIZE"
  by (simp add: highToneSpectrum_def)

lemma cmod_highTone:
  "i \<le> 341 \<Longrightarrow> cmod (highToneSpectrum ! i) = (if i = 341 then 2048 else 0)"
  by (simp add: highToneSpectrum_def FFT_SIZE_def del: upt_rec_numeral)

lemma spectralPeak_quiet:
  assumes "\<forall>j \<in> set (scannedBins fftData). cmod (fftData ! nat j) \<le> SPECTRAL_MAGNITUDE_THRESHOLD"
  shows "spectralPeak fftData = 0"
proof (rule ccontr)
  assume "spectralPeak fftData \<noteq> 0"
  from spectralPeak_nonzero [OF this] obtain k where
    "k \<in> set (scannedBins fftData)" "SPECTRAL_MAGNITUDE_THRESHOLD < cmod (fftData ! nat k)"
    by blast
  then show False using assms by force
qed

lemma spectralPeak_highTone: "spectralPeak highToneSpectrum = 0"
  by (rule spectralPeak_quiet)
     (auto simp: scannedBins_full [OF length_highTone] cmod_highTone nat_eq_iff
        SPECTRAL_MAGNITUDE_THRESHOLD_def)

lemma bandPeak_highTone: "bandPeak highToneSpectrum = 127875 / 64"
proof -
  have "peakScan highToneSpectrum [14..341] (0, - 1) = (cmod (highToneSpectrum ! nat 341), 341)"
    by (rule peakScan_eqI) (auto simp: sorted_upto cmod_highTone nat_eq_iff simp del: upto_rec_numeral)
  then show ?thesis
    by (simp add: bandPeak_def bandBins_full [OF length_highTone] cmod_highTone binFrequency_eq
        SPECTRAL_MAGNITUDE_THRESHOLD_def MIN_FREQUENCY_def MAX_FREQUENCY_def del: upto_rec_numeral)
qed

lemma scannedBins_full_list: "length fftData = FFT_SIZE \<Longrightarrow> scannedBins fftData = [13..340]"
  by (simp add: scannedBins_eq FFT_SIZE_def del: upto_rec_numeral)

lemma band_bins: "MIN_FREQUENCY \<le> binFrequency i \<and> binFrequency i \<le> MAX_FREQUENCY \<longleftrightarrow> 14 \<le> i \<and> i \<le> 341"
  by (simp add: binFrequency_ge_iff binFrequency_le_iff)

lemma scannedBins_range:
  "i \<in> set (scannedBins fftData) \<Longrightarrow>
     1 \<le> i \<and> nat i < length fftData \<and> binFrequency i \<le> MAX_FREQUENCY
     \<and> (i \<noteq> 13 \<longrightarrow> MIN_FREQUENCY \<le> binFrequency i)"
  using set_scannedBins [of i fftData]
  by (auto simp: binFrequency_ge_iff binFrequency_le_iff)

text \<open>
  C3 (amended). The peak search scans exactly the bins from 13 up to, but not
  including, the smaller of half the frame length and 341: for a frame of \<open>FFT_SIZE\<close>
  bins exactly the bins 13..340, never bin 0. The bins whose frequency lies in the band
  are exactly the bins 14..341. So no scanned bin lies above the band, every scanned
  bin except bin 13 (76.171875 Hz) lies inside it, and bin 341 (1998.046875 Hz) lies
  in the band but is not scanned. The result is the frequency of the first scanned bin
  of largest magnitude if that magnitude exceeds the floor and the frequency lies in
  the band, and 0 otherwise: so a non-zero result is the in-band frequency of such a
  bin, and the result is 0 exactly when no scanned magnitude exceeds the floor or the
  largest one sits in bin 13.
\<close>

theorem spectralPeak_scanned:
  "(\<forall>i \<in> set (scannedBins fftData).
       1 \<le> i \<and> nat i < length fftData \<and> binFrequency i \<le> MAX_FREQUENCY
       \<and> (i \<noteq> 13 \<longrightarrow> MIN_FREQUENCY \<le> binFrequency i))
   \<and> (k \<in> set (scannedBins fftData)
        \<and> SPECTRAL_MAGNITUDE_THRESHOLD < cmod (fftData ! nat k)
        \<and> (\<forall>j \<in> set (scannedBins fftData). cmod (fftData ! nat j) \<le> cmod (fftData ! nat k))
        \<and> (\<forall>j \<in> set (scannedBins fftData). j < k \<longrightarrow> cmod (fftData ! nat j) < cmod (fftData ! nat k))
        \<longrightarrow> spectralPeak fftData =
              (if MIN_FREQUENCY \<le> binFrequency k \<and> binFrequency k \<le> MAX_FREQUENCY
               then binFrequency k else 0))
   \<and> (spectralPeak fftData \<noteq> 0 \<longrightarrow>
        (\<exists>k \<in> set (scannedBins fftData).
           spectralPeak fftData = binFrequency k
           \<and> MIN_FREQUENCY \<le> binFrequency k \<and> binFrequency k \<le> MAX_FREQUENCY
           \<and> SPECTRAL_MAGNITUDE_THRESHOLD < cmod (fftData ! nat k)
           \<and> (\<forall>j \<in> set (scannedBins fftData). cmod (fftData ! nat j) \<le> cmod (fftData ! nat k))
           \<and> (\<forall>j \<in> set (scannedBins fftData). j < k \<longrightarrow> cmod (fftData ! nat j) < cmod (fftData ! nat k))))
   \<and> (spectralPeak fftData = 0 \<longrightarrow>
        (\<forall>j \<in> set (scannedBins fftData). cmod (fftData ! nat j) \<le> SPECTRAL_MAGNITUDE_THRESHOLD)
        \<or> (13 \<in> set (scannedBins fftData) \<and> SPECTRAL_MAGNITUDE_THRESHOLD < cmod (fftData ! 13)
             \<and> (\<forall>j \<in> set (scannedBins fftData). cmod (fftData ! nat j) \<le> cmod (fftData ! 13))))
   \<and> scannedBins fftData = [13..min (int (length fftData div 2)) 341 - 1]
   \<and> (length fftData = FFT_SIZE \<longrightarrow> scannedBins fftData = [13..340])
   \<and> (\<forall>i. (MIN_FREQUENCY \<le> binFrequency i \<and> binFrequency i \<le> MAX_FREQUENCY) = (14 \<le> i \<and> i \<le> 341))
   \<and> ((\<forall>j \<in> set (scannedBins fftData). cmod (fftData ! nat j) \<le> SPECTRAL_MAGNITUDE_THRESHOLD)
        \<longrightarrow> spectralPeak fftData = 0)"
proof (intro conjI ballI impI)
  fix i assume "i \<in> set (scannedBins fftData)"
  then show "1 \<le> i" "nat i < length fftData" "binFrequency i \<le> MAX_FREQUENCY"
    using scannedBins_range by blast+
next
  fix i assume "i \<in> set (scannedBins fftData)" "i \<noteq> 13"
  then show "MIN_FREQUENCY \<le> binFrequency i" using scannedBins_range by blast
next
  assume "k \<in> set (scannedBins fftData)
        \<and> SPECTRAL_MAGNITUDE_THRESHOLD < cmod (fftData ! nat k)
        \<and> (\<forall>j \<in> set (scannedBins fftData). cmod (fftData ! nat j) \<le> cmod (fftData ! nat k))
        \<and> (\<forall>j \<in> set (scannedBins fftData). j < k \<longrightarrow> cmod (fftData ! nat j) < cmod (fftData ! nat k))"
  then show "spectralPeak fftData =
              (if MIN_FREQUENCY \<le> binFrequency k \<and> binFrequency k \<le> MAX_FREQUENCY
               then binFrequency k else 0)"
    using spectralPeak_eqI by blast
next
  assume "spectralPeak fftData \<noteq> 0"
  then show "\<exists>k \<in> set (scannedBins fftData).
           spectralPeak fftData = binFrequency k
           \<and> MIN_FREQUENCY \<le> binFrequency k \<and> binFrequency k \<le> MAX_FREQUENCY
           \<and> SPECTRAL_MAGNITUDE_THRESHOLD < cmod (fftData ! nat k)
           \<and> (\<forall>j \<in> set (scannedBins fftData). cmod (fftData ! nat j) \<le> cmod (fftData ! nat k))
           \<and> (\<forall>j \<in> set (scannedBins fftData). j < k \<longrightarrow> cmod (fftData ! nat j) < cmod (fftData ! nat k))"
    by (rule spectralPeak_nonzero)
next
  assume "spectralPeak fftData = 0"
  then show "(\<forall>j \<in> set (scannedBins fftData). cmod (fftData ! nat j) \<le> SPECTRAL_MAGNITUDE_THRESHOLD)
        \<or> (13 \<in> set (scannedBins fftData) \<and> SPECTRAL_MAGNITUDE_THRESHOLD < cmod (fftData ! 13)
             \<and> (\<forall>j \<in> set (scannedBins fftData). cmod (fftData ! nat j) \<le> cmod (fftData ! 13)))"
    by (rule spectralPeak_zero)
next
  show "scannedBins fftData = [13..min (int (length fftData div 2)) 341 - 1]"
    by (rule scannedBins_eq)
next
  assume "length fftData = FFT_SIZE"
  then show "scannedBins fftData = [13..340]" by (rule scannedBins_full_list)
next
  show "\<forall>i. (MIN_FREQUENCY \<le> binFrequency i \<and> binFrequency i \<le> MAX_FREQUENCY) = (14 \<le> i \<and> i \<le> 341)"
    using band_bins by blast
next
  assume "\<forall>j \<in> set (scannedBins fftData). cmod (fftData ! nat j) \<le> SPECTRAL_MAGNITUDE_THRESHOLD"
  then show "spectralPeak fftData = 0" by (rule spectralPeak_quiet)
qed

theorem spectralPeak_scanned_witness:
  "20 \<in> set (scannedBins lowToneSpectrum)
   \<and> SPECTRAL_MAGNITUDE_THRESHOLD < cmod (lowToneSpectrum ! nat 20)
   \<and> list_all (\<lambda>j. cmod (lowToneSpectrum ! nat j) \<le> cmod (lowToneSpectrum ! nat 20)) (scannedBins lowToneSpectrum)
   \<and> list_all (\<lambda>j. \<not> j < 20 \<or> cmod (lowToneSpectrum ! nat j) < cmod (lowToneSpectrum ! nat 20)) (scannedBins lowToneSpectrum)
   \<and> spectralPeak lowToneSpectrum = 1875 / 16
   \<and> spectralPeak maskedSpectrum = 0
   \<and> 13 \<in> set (scannedBins maskedSpectrum)
   \<and> SPECTRAL_MAGNITUDE_THRESHOLD < cmod (maskedSpectrum ! 13)
   \<and> length highToneSpectrum = FFT_SIZE
   \<and> scannedBins highToneSpectrum = [13..340]
   \<and> list_all (\<lambda>j. cmod (highToneSpectrum ! nat j) \<le> SPECTRAL_MAGNITUDE_THRESHOLD)
         (scannedBins highToneSpectrum)
   \<and> spectralPeak highToneSpectrum = 0"
proof -
  note bins = scannedBins_full [OF length_lowTone]
  have q1: "\<forall>j \<in> set (scannedBins highToneSpectrum).
      cmod (highToneSpectrum ! nat j) \<le> SPECTRAL_MAGNITUDE_THRESHOLD"
    by (auto simp: scannedBins_full [OF length_highTone] cmod_highTone nat_eq_iff
        SPECTRAL_MAGNITUDE_THRESHOLD_def)
  have q2: "scannedBins highToneSpectrum = [13..340]"
    using spectralPeak_scanned [of highToneSpectrum 0] length_highTone by blast
  have q3: "spectralPeak highToneSpectrum = 0"
    using spectralPeak_scanned [of highToneSpectrum 0] q1 by blast
  have h1: "20 \<in> set (scannedBins lowToneSpectrum)" by (simp add: bins)
  have h2: "SPECTRAL_MAGNITUDE_THRESHOLD < cmod (lowToneSpectrum ! nat 20)"
    by (simp add: cmod_lowTone SPECTRAL_MAGNITUDE_THRESHOLD_def)
  have h3: "\<forall>j \<in> set (scannedBins lowToneSpectrum).
      cmod (lowToneSpectrum ! nat j) \<le> cmod (lowToneSpectrum ! nat 20)"
    by (auto simp: bins cmod_lowTone nat_eq_iff)
  have h4: "\<forall>j \<in> set (scannedBins lowToneSpectrum).
      j < 20 \<longrightarrow> cmod (lowToneSpectrum ! nat j) < cmod (lowToneSpectrum ! nat 20)"
    by (auto simp: bins cmod_lowTone nat_eq_iff)
  have inband: "MIN_FREQUENCY \<le> binFrequency 20 \<and> binFrequency 20 \<le> MAX_FREQUENCY"
    by (simp add: binFrequency_eq MIN_FREQUENCY_def MAX_FREQUENCY_def)
  have low: "spectralPeak lowToneSpectrum = 1875 / 16"
    using spectralPeak_scanned [of lowToneSpectrum 20] h1 h2 h3 h4 inband
    by (simp add: binFrequency_eq)
  have m1: "13 \<in> set (scannedBins maskedSpectrum)"
    by (simp add: scannedBins_full [OF length_masked])
  have m2: "SPECTRAL_MAGNITUDE_THRESHOLD < cmod (maskedSpectrum ! nat 13)"
    by (simp add: cmod_masked SPECTRAL_MAGNITUDE_THRESHOLD_def)
  have m3: "\<forall>j \<in> set (scannedBins maskedSpectrum).
      cmod (maskedSpectrum ! nat j) \<le> cmod (maskedSpectrum ! nat 13)"
    by (auto simp: scannedBins_full [OF length_masked] cmod_masked nat_eq_iff)
  have m4: "\<forall>j \<in> set (scannedBins maskedSpectrum).
      j < 13 \<longrightarrow> cmod (maskedSpectrum ! nat j) < cmod (maskedSpectrum ! nat 13)"
    by (auto simp: scannedBins_full [OF length_masked] cmod_masked nat_eq_iff)
  have outband: "\<not> MIN_FREQUENCY \<le> binFrequency 13"
    by (simp add: binFrequency_eq MIN_FREQUENCY_def)
  have masked: "spectralPeak maskedSpectrum = 0"
    using spectralPeak_scanned [of maskedSpectrum 13] m1 m2 m3 m4 outband by simp
  show ?thesis
    using h1 h2 h3 h4 low masked m1 m2 q1 q2 q3 length_highTone
    by (simp only: list_all_iff nat_numeral simp_thms) blast
qed

text \<open>
  C3 as stated fails at both edges of the band. On \<open>maskedSpectrum\<close> bin 13 is scanned
  although its frequency is below the band, it wins the search, and the range check
  then discards the result, while the peak over the bins of the band is bin 100 with a
  magnitude above the floor. On \<open>highToneSpectrum\<close> the only component sits in bin 341,
  whose frequency lies in the band, but the bin is not scanned: the result is 0, while
  the peak over the bins of the band is bin 341.
\<close>

theorem spectralPeak_band_counterexample:
  "13 \<in> set (scannedBins maskedSpectrum) \<and> binFrequency 13 < MIN_FREQUENCY
   \<and> spectralPeak maskedSpectrum = 0 \<and> bandPeak maskedSpectrum = 9375 / 16
   \<and> 341 \<notin> set (scannedBins highToneSpectrum)
   \<and> 341 \<in> set (bandBins highToneSpectrum)
   \<and> MIN_FREQUENCY \<le> binFrequency 341 \<and> binFrequency 341 \<le> MAX_FREQUENCY
   \<and> SPECTRAL_MAGNITUDE_THRESHOLD < cmod (highToneSpectrum ! 341)
   \<and> spectralPeak highToneSpectrum = 0 \<and> bandPeak highToneSpectrum = 127875 / 64"
proof -
  have low: "13 \<in> set (scannedBins maskedSpectrum) \<and> binFrequency 13 < MIN_FREQUENCY"
    by (simp add: scannedBins_full [OF length_masked] binFrequency_eq MIN_FREQUENCY_def)
  have high: "341 \<notin> set (scannedBins highToneSpectrum)" "341 \<in> set (bandBins highToneSpectrum)"
    by (simp_all add: scannedBins_full [OF length_highTone] bandBins_full [OF length_highTone]
        del: upto_rec_numeral)
  have band: "MIN_FREQUENCY \<le> binFrequency 341 \<and> binFrequency 341 \<le> MAX_FREQUENCY"
    by (simp add: band_bins)
  have loud: "SPECTRAL_MAGNITUDE_THRESHOLD < cmod (highToneSpectrum ! 341)"
    by (simp add: cmod_highTone SPECTRAL_MAGNITUDE_THRESHOLD_def)
  show ?thesis
    using low high band loud spectralPeak_masked bandPeak_masked spectralPeak_highTone
      bandPeak_highTone
    by blast
qed


section \<open>The note state machine\<close>

lemma frames_temporalSmoothing [simp]:
  "overlapBuffer (temporalSmoothing st f n t) = overlapBuffer st"
  "framesProcessed (temporalSmoothing st f n t) = framesProcessed st"
  "callbackCount (temporalSmoothing st f n t) = callbackCount st"
  by (simp_all add: temporalSmoothing_def Let_def)

subsection \<open>The window loop\<close>

lemma detect_range:
  "detectFundamentalFrequency fftw_execute w = 0
   \<or> (MIN_FREQUENCY \<le> detectFundamentalFrequency fftw_execute w
       \<and> detectFundamentalFrequency fftw_execute w \<le> MAX_FREQUENCY)"
  by (simp add: detectFundamentalFrequency_def spectralPeak_def Let_def split: prod.splits)

lemma analyseWindow_Some:
  "analyseWindow libm_log2 fftw_execute st w = Some s \<longleftrightarrow>
     (\<exists>n. frequencyToMidiNote libm_log2 (detectFundamentalFrequency fftw_execute w) = Some n
          \<and> s = temporalSmoothing st (detectFundamentalFrequency fftw_execute w) n
                  (timestampSec (framesProcessed st)))"
  by (auto simp: analyseWindow_def Let_def split: option.splits)

lemma analyseWindow_defined:
  assumes "noteDefined libm_log2"
  shows "\<exists>s. analyseWindow libm_log2 fftw_execute st w = Some s"
proof -
  have "\<exists>n. frequencyToMidiNote libm_log2 (detectFundamentalFrequency fftw_execute w) = Some n"
  proof (cases "detectFundamentalFrequency fftw_execute w = 0")
    case True
    then show ?thesis by (simp add: frequencyToMidiNote_nonpos)
  next
    case False
    then have "frequencyToMidiNote libm_log2 (detectFundamentalFrequency fftw_execute w) \<noteq> None"
      using detect_range [of fftw_execute w] assms unfolding noteDefined_def by blast
    then show ?thesis by blast
  qed
  then show ?thesis unfolding analyseWindow_Some by blast
qed

lemma frames_analyseWindow:
  assumes "analyseWindow libm_log2 fftw_execute st w = Some s"
  shows "overlapBuffer s = overlapBuffer st" "framesProcessed s = framesProcessed st"
    "callbackCount s = callbackCount st"
  using assms by (auto simp: analyseWindow_Some)

lemma processWindow_alt:
  "processWindow libm_log2 fftw_execute st =
     map_option
       (\<lambda>s. s\<lparr>overlapBuffer := drop HOP_SIZE (overlapBuffer st),
                framesProcessed := framesProcessed st + of_nat HOP_SIZE\<rparr>)
       (analyseWindow libm_log2 fftw_execute st (take FFT_SIZE (overlapBuffer st)))"
proof (cases "analyseWindow libm_log2 fftw_execute st (take FFT_SIZE (overlapBuffer st))")
  case None
  then show ?thesis by (simp add: processWindow_def Let_def)
next
  case (Some s)
  then show ?thesis
    using frames_analyseWindow [OF Some] by (simp add: processWindow_def Let_def)
qed

lemma processWindow_Some:
  "processWindow libm_log2 fftw_execute st = Some s1 \<longleftrightarrow>
     (\<exists>s. analyseWindow libm_log2 fftw_execute st (take FFT_SIZE (overlapBuffer st)) = Some s
          \<and> s1 = s\<lparr>overlapBuffer := drop HOP_SIZE (overlapBuffer st),
                     framesProcessed := framesProcessed st + of_nat HOP_SIZE\<rparr>)"
  unfolding processWindow_alt by auto

lemma processWindow_defined:
  "noteDefined libm_log2 \<Longrightarrow> \<exists>s. processWindow libm_log2 fftw_execute st = Some s"
  using analyseWindow_defined [of libm_log2 fftw_execute st "take FFT_SIZE (overlapBuffer st)"]
  unfolding processWindow_Some by blast

lemma framesProcessed_processWindow:
  "processWindow libm_log2 fftw_execute st = Some s \<Longrightarrow>
   framesProcessed s = framesProcessed st + of_nat HOP_SIZE"
  by (auto simp: processWindow_Some)

lemma drainWindows_more:
  "FFT_SIZE \<le> length (overlapBuffer st) \<Longrightarrow>
   drainWindows libm_log2 fftw_execute st =
     (case processWindow libm_log2 fftw_execute st of
        None \<Rightarrow> None
      | Some st1 \<Rightarrow> drainWindows libm_log2 fftw_execute st1)"
  by (simp add: drainWindows.simps [of _ _ st])

lemma drainWindows_done:
  "length (overlapBuffer st) < FFT_SIZE \<Longrightarrow> drainWindows libm_log2 fftw_execute st = Some st"
  by (simp add: drainWindows.simps [of _ _ st])

lemma drainWindows_step:
  assumes "FFT_SIZE \<le> length (overlapBuffer st)"
    and "drainWindows libm_log2 fftw_execute st = Some s"
  obtains st1 where "processWindow libm_log2 fftw_execute st = Some st1"
    and "drainWindows libm_log2 fftw_execute st1 = Some s"
  using assms by (auto simp: drainWindows_more split: option.splits)

lemma drainWindows_defined:
  "noteDefined libm_log2 \<Longrightarrow> \<exists>s. drainWindows libm_log2 fftw_execute st = Some s"
proof (induction libm_log2 fftw_execute st rule: drainWindows.induct)
  case (1 libm_log2 fftw_execute st)
  show ?case
  proof (cases "FFT_SIZE \<le> length (overlapBuffer st)")
    case True
    obtain st1 where p: "processWindow libm_log2 fftw_execute st = Some st1"
      using processWindow_defined [OF "1.prems"] by blast
    from "1.IH" [OF True p "1.prems"] show ?thesis
      using True p by (simp add: drainWindows_more)
  next
    case False
    then show ?thesis by (simp add: drainWindows_done)
  qed
qed

lemma paCallback_Some:
  "paCallback libm_log2 fftw_execute st inputBuffer = Some s \<longleftrightarrow>
     (\<exists>s2. drainWindows libm_log2 fftw_execute
              (st\<lparr>overlapBuffer := overlapBuffer st @ inputBuffer\<rparr>) = Some s2
           \<and> s = s2\<lparr>callbackCount := callbackCount s2 + 1\<rparr>)"
  by (auto simp: paCallback_def Let_def split: option.splits)

lemma paCallback_defined:
  "noteDefined libm_log2 \<Longrightarrow> \<exists>s. paCallback libm_log2 fftw_execute st inputBuffer = Some s"
  using drainWindows_defined [of libm_log2 fftw_execute
      "st\<lparr>overlapBuffer := overlapBuffer st @ inputBuffer\<rparr>"]
  unfolding paCallback_Some by blast

lemma runCallbacks_defined:
  "noteDefined libm_log2 \<Longrightarrow> \<exists>s. runCallbacks libm_log2 fftw_execute st buffers = Some s"
proof (induction buffers arbitrary: st)
  case Nil
  then show ?case by simp
next
  case (Cons b buffers)
  obtain s1 where "paCallback libm_log2 fftw_execute st b = Some s1"
    using paCallback_defined [OF Cons.prems] by blast
  then show ?case using Cons.IH [OF Cons.prems, of s1] by simp
qed

text \<open>
  A property of the state that the smoothing logic preserves, and that does not depend
  on the overlap buffer, the frame counter or the callback counter, holds after the
  window loop and after any number of callbacks.
\<close>

lemma drainWindows_preserves:
  assumes step: "\<And>s f n t. P s \<Longrightarrow> P (temporalSmoothing s f n t)"
    and buf: "\<And>s b. P s \<Longrightarrow> P (s\<lparr>overlapBuffer := b\<rparr>)"
    and frames: "\<And>s w. P s \<Longrightarrow> P (s\<lparr>framesProcessed := w\<rparr>)"
  shows "P st \<Longrightarrow> drainWindows libm_log2 fftw_execute st = Some s' \<Longrightarrow> P s'"
proof (induction libm_log2 fftw_execute st rule: drainWindows.induct)
  case (1 libm_log2 fftw_execute st)
  show ?case
  proof (cases "FFT_SIZE \<le> length (overlapBuffer st)")
    case True
    from drainWindows_step [OF True "1.prems"(2)] obtain st1
      where p: "processWindow libm_log2 fftw_execute st = Some st1"
        and d: "drainWindows libm_log2 fftw_execute st1 = Some s'"
      by blast
    have "P st1"
      using p step [OF "1.prems"(1)] buf frames
      by (auto simp: processWindow_Some analyseWindow_Some)
    then show ?thesis using "1.IH" [OF True p _ d] by blast
  next
    case False
    then show ?thesis using "1.prems" by (simp add: drainWindows_done)
  qed
qed

lemma runCallbacks_preserves:
  assumes step: "\<And>s f n t. P s \<Longrightarrow> P (temporalSmoothing s f n t)"
    and buf: "\<And>s b. P s \<Longrightarrow> P (s\<lparr>overlapBuffer := b\<rparr>)"
    and frames: "\<And>s w. P s \<Longrightarrow> P (s\<lparr>framesProcessed := w\<rparr>)"
    and count: "\<And>s c. P s \<Longrightarrow> P (s\<lparr>callbackCount := c\<rparr>)"
  shows "P st \<Longrightarrow> runCallbacks libm_log2 fftw_execute st buffers = Some s' \<Longrightarrow> P s'"
proof (induction buffers arbitrary: st)
  case Nil
  then show ?case by simp
next
  case (Cons b buffers)
  from Cons.prems(2) obtain s1
    where c: "paCallback libm_log2 fftw_execute st b = Some s1"
      and r: "runCallbacks libm_log2 fftw_execute s1 buffers = Some s'"
    by (auto split: option.splits)
  from c obtain s2
    where d: "drainWindows libm_log2 fftw_execute (st\<lparr>overlapBuffer := overlapBuffer st @ b\<rparr>)
                = Some s2"
      and s1: "s1 = s2\<lparr>callbackCount := callbackCount s2 + 1\<rparr>"
    unfolding paCallback_Some by blast
  have "P s2"
    by (rule drainWindows_preserves [where P = P, OF step buf frames _ d])
       (simp_all add: buf Cons.prems(1))
  then have "P s1" unfolding s1 by (rule count)
  then show ?case using Cons.IH [OF _ r] by blast
qed

subsection \<open>A run on a tone near A4\<close>

lemma fft_const:
  "length frame = FFT_SIZE \<Longrightarrow> fft (\<lambda>input i. frame ! i) audioData = frame"
  using map_nth [of frame] by (simp add: fft_def Let_def)

lemma peakAmplitude_replicate: "0 < n \<Longrightarrow> peakAmplitude (replicate n x) = \<bar>x\<bar>"
  by (simp add: peakAmplitude_def max_def)

lemma passesNoiseGate_half: "0 < n \<Longrightarrow> passesNoiseGate (replicate n (1 / 2))"
  by (simp add: passesNoiseGate_peak peakAmplitude_replicate NOISE_GATE_THRESHOLD_def)

lemma FFT_SIZE_pos: "0 < FFT_SIZE"
  by (simp add: FFT_SIZE_def)

lemma length_a4: "length a4Spectrum = FFT_SIZE"
  by (simp add: a4Spectrum_def)

lemma cmod_a4: "i \<le> 341 \<Longrightarrow> cmod (a4Spectrum ! i) = (if i = 75 then 2048 else 0)"
  by (simp add: a4Spectrum_def FFT_SIZE_def del: upt_rec_numeral)

lemma spectralPeak_a4: "spectralPeak a4Spectrum = 28125 / 64"
proof -
  note bins = scannedBins_full [OF length_a4]
  have "spectralPeak a4Spectrum =
    (if MIN_FREQUENCY \<le> binFrequency 75 \<and> binFrequency 75 \<le> MAX_FREQUENCY then binFrequency 75 else 0)"
    by (rule spectralPeak_eqI)
       (auto simp: bins cmod_a4 nat_eq_iff SPECTRAL_MAGNITUDE_THRESHOLD_def)
  then show ?thesis by (simp add: binFrequency_eq MIN_FREQUENCY_def MAX_FREQUENCY_def)
qed

lemma a4Transform_eq: "a4Transform = (\<lambda>input i. a4Spectrum ! i)"
  by (rule ext)+ (simp add: a4Transform_def)

lemma detect_a4:
  "detectFundamentalFrequency a4Transform (replicate FFT_SIZE (1 / 2)) = 28125 / 64"
  using spectralPeak_a4
  by (simp add: detectFundamentalFrequency_def passesNoiseGate_half a4Transform_eq fft_const
      length_a4 FFT_SIZE_pos)

lemma timestampSec_0: "timestampSec 0 = 32 / 375"
  by (simp add: timestampSec_def FFT_SIZE_def SAMPLE_RATE_def)

lemma analyse_a4:
  "analyseWindow exactLog2 a4Transform st (replicate FFT_SIZE (1 / 2))
     = Some (temporalSmoothing st (28125 / 64) 69 (timestampSec (framesProcessed st)))"
  by (simp add: analyseWindow_def Let_def detect_a4 frequencyToMidiNote_bin75)

lemma overlapBuffer_initialState: "overlapBuffer initialState = []"
  by (simp add: initialState_def)

lemma paCallback_initialState:
  "paCallback libm_log2 fftw_execute initialState xs =
     map_option (\<lambda>s. s\<lparr>callbackCount := callbackCount s + 1\<rparr>)
       (drainWindows libm_log2 fftw_execute (initialState\<lparr>overlapBuffer := xs\<rparr>))"
  by (simp add: paCallback_def Let_def overlapBuffer_initialState split: option.splits)

lemma paCallback_one_window:
  assumes len: "length xs = FFT_SIZE"
  shows "paCallback libm_log2 fftw_execute initialState xs =
     map_option
       (\<lambda>s. s\<lparr>overlapBuffer := drop HOP_SIZE xs, framesProcessed := of_nat HOP_SIZE,
                callbackCount := 1\<rparr>)
       (analyseWindow libm_log2 fftw_execute (initialState\<lparr>overlapBuffer := xs\<rparr>) xs)"
proof -
  define st0 where "st0 = initialState\<lparr>overlapBuffer := xs\<rparr>"
  have f0: "framesProcessed st0 = 0" "overlapBuffer st0 = xs" "callbackCount st0 = 0"
    by (simp_all add: st0_def initialState_def)
  have pa: "paCallback libm_log2 fftw_execute initialState xs =
      map_option (\<lambda>s. s\<lparr>callbackCount := callbackCount s + 1\<rparr>)
        (drainWindows libm_log2 fftw_execute st0)"
    unfolding st0_def by (rule paCallback_initialState)
  have more: "drainWindows libm_log2 fftw_execute st0 =
     (case processWindow libm_log2 fftw_execute st0 of
        None \<Rightarrow> None
      | Some st1 \<Rightarrow> drainWindows libm_log2 fftw_execute st1)"
    by (rule drainWindows_more) (simp add: f0 len)
  show ?thesis
  proof (cases "analyseWindow libm_log2 fftw_execute st0 xs")
    case None
    then have "processWindow libm_log2 fftw_execute st0 = None"
      by (simp add: processWindow_alt f0 len)
    then have "paCallback libm_log2 fftw_execute initialState xs = None"
      by (simp add: pa more)
    then show ?thesis using None by (simp add: st0_def [symmetric])
  next
    case (Some a)
    define st1 where "st1 = a\<lparr>overlapBuffer := drop HOP_SIZE xs, framesProcessed := of_nat HOP_SIZE\<rparr>"
    have p: "processWindow libm_log2 fftw_execute st0 = Some st1"
      by (simp add: processWindow_alt f0 len Some st1_def)
    have "length (overlapBuffer st1) < FFT_SIZE"
      by (simp add: st1_def len HOP_SIZE_def FFT_SIZE_def)
    then have d: "drainWindows libm_log2 fftw_execute st1 = Some st1" by (rule drainWindows_done)
    have c: "callbackCount st1 = 0"
      using frames_analyseWindow(3) [OF Some] by (simp add: st1_def f0)
    have "paCallback libm_log2 fftw_execute initialState xs = Some (st1\<lparr>callbackCount := 1\<rparr>)"
      by (simp add: pa more p d c)
    then show ?thesis using Some by (simp add: st0_def [symmetric] st1_def)
  qed
qed

lemmas smoothing_eval =
  temporalSmoothing_def initialState_def Let_def
  CONSECUTIVE_DETECTIONS_REQUIRED_def CONSECUTIVE_SILENCE_REQUIRED_def

lemma a4_callback:
  "paCallback exactLog2 a4Transform initialState (replicate FFT_SIZE (1 / 2)) = Some a4State"
proof -
  have "drop HOP_SIZE (replicate FFT_SIZE (1 / 2 :: real)) = replicate HOP_SIZE (1 / 2)"
    by (simp add: HOP_SIZE_def FFT_SIZE_def)
  then show ?thesis
    by (simp add: paCallback_one_window analyse_a4) (simp add: smoothing_eval timestampSec_0 a4State_def)
qed

lemma a4_run:
  "runCallbacks exactLog2 a4Transform initialState [replicate FFT_SIZE (1 / 2)] = Some a4State"
  by (simp add: a4_callback)

subsection \<open>Monophonic output\<close>

lemma noteMonitor_append:
  "noteMonitor a (xs @ ys) = (case noteMonitor a xs of None \<Rightarrow> None | Some b \<Rightarrow> noteMonitor b ys)"
  by (induction a xs rule: noteMonitor.induct) simp_all

lemma monophonicInv_step: "monophonicInv s \<Longrightarrow> monophonicInv (temporalSmoothing s f n t)"
  by (auto simp: monophonicInv_def temporalSmoothing_def Let_def noteMonitor_append)

lemma monophonicInv_run:
  "runCallbacks libm_log2 fftw_execute initialState buffers = Some s \<Longrightarrow> monophonicInv s"
  by (erule runCallbacks_preserves [where P = monophonicInv, rotated -1])
     (simp_all add: monophonicInv_step, simp_all add: monophonicInv_def initialState_def)

lemma feedWindows_preserves:
  assumes step: "\<And>s f n t. P s \<Longrightarrow> P (temporalSmoothing s f n t)"
  shows "P st \<Longrightarrow> P (feedWindows st windows)"
  unfolding feedWindows_def
  by (induction windows arbitrary: st) (auto simp: step)

lemma feedWindows_Nil [simp]: "feedWindows st [] = st"
  by (simp add: feedWindows_def)

lemma feedWindows_Cons [simp]:
  "feedWindows st ((f, n, t) # windows) = feedWindows (temporalSmoothing st f n t) windows"
  by (simp add: feedWindows_def)

lemma monophonicInv_fold:
  "monophonicInv (feedWindows initialState windows)"
  by (rule feedWindows_preserves [where P = monophonicInv])
     (simp_all add: monophonicInv_step, simp_all add: monophonicInv_def initialState_def)

lemma switch_step:
  "0 < lastMidiNote st \<Longrightarrow> 0 < lastMidiNote (temporalSmoothing st f n t) \<Longrightarrow>
   lastMidiNote (temporalSmoothing st f n t) \<noteq> lastMidiNote st \<Longrightarrow>
   midiStream (temporalSmoothing st f n t) = midiStream st @
     [Pm_WriteShort 0 (Pm_Message 0x90 (lastMidiNote st) 0),
      Pm_WriteShort 0 (Pm_Message 0x90 (lastMidiNote (temporalSmoothing st f n t)) 100)]"
  by (auto simp: temporalSmoothing_def Let_def split: if_splits)

lemma counters_step:
  "\<not> (0 < consecutiveDetections (temporalSmoothing st f n t) \<and> 0 < consecutiveSilences (temporalSmoothing st f n t))"
  by (auto simp: temporalSmoothing_def Let_def split: if_splits)

lemma countersInv_run:
  "runCallbacks libm_log2 fftw_execute initialState buffers = Some s \<Longrightarrow> countersInv s"
  by (erule runCallbacks_preserves [where P = countersInv, rotated -1])
     (simp_all add: countersInv_def counters_step initialState_def)

text \<open>
  C1. Whatever sequence of windows is fed to the smoothing logic from the initial
  state, and whatever buffers the callback receives, the MIDI output never has a
  Note-On while a note is sounding (so two Note-Ons always have a Note-Off between
  them), never has a Note-Off when no note is sounding, and ends with \<open>lastMidiNote\<close>
  as the sounding note. When a window switches the active note from A to another
  note B, it emits exactly Note-Off A followed by Note-On B. A run of callbacks
  reaches a state whenever the note number is defined on the band.
\<close>

theorem note_events_monophonic:
  "noteMonitor 0 (midiStream (feedWindows initialState windows))
     = Some (lastMidiNote (feedWindows initialState windows))
   \<and> (\<forall>s. runCallbacks libm_log2 fftw_execute initialState buffers = Some s \<longrightarrow>
          noteMonitor 0 (midiStream s) = Some (lastMidiNote s))
   \<and> (noteDefined libm_log2 \<longrightarrow>
          (\<exists>s. runCallbacks libm_log2 fftw_execute initialState buffers = Some s))
   \<and> (0 < lastMidiNote st \<and> 0 < lastMidiNote (temporalSmoothing st f n t)
        \<and> lastMidiNote (temporalSmoothing st f n t) \<noteq> lastMidiNote st
       \<longrightarrow> midiStream (temporalSmoothing st f n t) = midiStream st @
             [Pm_WriteShort 0 (Pm_Message 0x90 (lastMidiNote st) 0),
              Pm_WriteShort 0 (Pm_Message 0x90 (lastMidiNote (temporalSmoothing st f n t)) 100)])"
  using monophonicInv_fold [of windows] monophonicInv_run [of libm_log2 fftw_execute buffers]
    switch_step [of st f n t] runCallbacks_defined [of libm_log2 fftw_execute initialState buffers]
  by (simp add: monophonicInv_def)

theorem note_events_monophonic_witness:
  "midiStream (feedWindows initialState [(440, 69, 32 / 375), (880, 81, 64 / 375), (0, 0, 96 / 375)])
     = [Pm_WriteShort 0 (Pm_Message 0x90 69 100), Pm_WriteShort 0 (Pm_Message 0x90 69 0),
        Pm_WriteShort 0 (Pm_Message 0x90 81 100), Pm_WriteShort 0 (Pm_Message 0x90 81 0)]
   \<and> noteMonitor 0 (midiStream (feedWindows initialState
        [(440, 69, 32 / 375), (880, 81, 64 / 375), (0, 0, 96 / 375)])) = Some 0
   \<and> 0 < lastMidiNote (temporalSmoothing initialState 440 69 (32 / 375))
   \<and> 0 < lastMidiNote (temporalSmoothing (temporalSmoothing initialState 440 69 (32 / 375)) 880 81 (64 / 375))
   \<and> lastMidiNote (temporalSmoothing (temporalSmoothing initialState 440 69 (32 / 375)) 880 81 (64 / 375))
       \<noteq> lastMidiNote (temporalSmoothing initialState 440 69 (32 / 375))
   \<and> midiStream (temporalSmoothing (temporalSmoothing initialState 440 69 (32 / 375)) 880 81 (64 / 375))
       = midiStream (temporalSmoothing initialState 440 69 (32 / 375)) @
         [Pm_WriteShort 0 (Pm_Message 0x90 69 0), Pm_WriteShort 0 (Pm_Message 0x90 81 100)]
   \<and> noteDefined exactLog2
   \<and> runCallbacks exactLog2 a4Transform initialState [replicate FFT_SIZE (1 / 2)] = Some a4State
   \<and> noteMonitor 0 (midiStream a4State) = Some (lastMidiNote a4State)
   \<and> lastMidiNote a4State = 69"
proof -
  have run: "midiStream (feedWindows initialState [(440, 69, 32 / 375), (880, 81, 64 / 375), (0, 0, 96 / 375)])
     = [Pm_WriteShort 0 (Pm_Message 0x90 69 100), Pm_WriteShort 0 (Pm_Message 0x90 69 0),
        Pm_WriteShort 0 (Pm_Message 0x90 81 100), Pm_WriteShort 0 (Pm_Message 0x90 81 0)]"
    by (simp add: smoothing_eval)
  have last0: "lastMidiNote (feedWindows initialState
        [(440, 69, 32 / 375), (880, 81, 64 / 375), (0, 0, 96 / 375)]) = 0"
    by (simp add: smoothing_eval)
  have l1: "lastMidiNote (temporalSmoothing initialState 440 69 (32 / 375)) = 69"
    by (simp add: smoothing_eval)
  have l2: "lastMidiNote (temporalSmoothing (temporalSmoothing initialState 440 69 (32 / 375)) 880 81 (64 / 375)) = 81"
    by (simp add: smoothing_eval)
  have l3: "lastMidiNote a4State = 69" by (simp add: a4State_def)
  note inst = note_events_monophonic [of "[(440, 69, 32 / 375), (880, 81, 64 / 375), (0, 0, 96 / 375)]"
        exactLog2 a4Transform "[replicate FFT_SIZE (1 / 2)]"
        "temporalSmoothing initialState 440 69 (32 / 375)" 880 81 "64 / 375"]
  have mon: "noteMonitor 0 (midiStream a4State) = Some (lastMidiNote a4State)"
    using inst a4_run by blast
  have feed: "noteMonitor 0 (midiStream (feedWindows initialState
        [(440, 69, 32 / 375), (880, 81, 64 / 375), (0, 0, 96 / 375)])) = Some 0"
    using inst last0 by simp
  have sw: "midiStream (temporalSmoothing (temporalSmoothing initialState 440 69 (32 / 375)) 880 81 (64 / 375))
       = midiStream (temporalSmoothing initialState 440 69 (32 / 375)) @
         [Pm_WriteShort 0 (Pm_Message 0x90 69 0), Pm_WriteShort 0 (Pm_Message 0x90 81 100)]"
    using inst by (simp only: l1 l2) simp
  show ?thesis
    using run feed sw mon l3 a4_run noteDefined_exactLog2 by (simp add: l1 l2)
qed

text \<open>
  C8. Both counters start at 0. After the smoothing logic has processed a window, from
  any state, they are not both positive; hence they are never both positive in a state
  reached from the initial one, whether by a sequence of windows or by callbacks.
\<close>

theorem counters_exclusive:
  "consecutiveDetections initialState = 0 \<and> consecutiveSilences initialState = 0
   \<and> \<not> (0 < consecutiveDetections (temporalSmoothing st f n t)
          \<and> 0 < consecutiveSilences (temporalSmoothing st f n t))
   \<and> \<not> (0 < consecutiveDetections (feedWindows initialState windows)
          \<and> 0 < consecutiveSilences (feedWindows initialState windows))
   \<and> (\<forall>s. runCallbacks libm_log2 fftw_execute initialState buffers = Some s \<longrightarrow>
          \<not> (0 < consecutiveDetections s \<and> 0 < consecutiveSilences s))
   \<and> (noteDefined libm_log2 \<longrightarrow>
          (\<exists>s. runCallbacks libm_log2 fftw_execute initialState buffers = Some s))"
proof -
  have "countersInv (feedWindows initialState windows)"
    by (rule feedWindows_preserves [where P = countersInv])
       (simp_all add: countersInv_def counters_step initialState_def)
  then show ?thesis
    using counters_step [of st f n t] countersInv_run [of libm_log2 fftw_execute buffers]
      runCallbacks_defined [of libm_log2 fftw_execute initialState buffers]
    by (simp add: countersInv_def initialState_def)
qed

theorem counters_exclusive_witness:
  "consecutiveDetections (feedWindows initialState [(440, 69, 32 / 375), (440, 69, 64 / 375)]) = 2
   \<and> \<not> 0 < consecutiveSilences (feedWindows initialState [(440, 69, 32 / 375), (440, 69, 64 / 375)])
   \<and> \<not> 0 < consecutiveDetections (feedWindows initialState [(440, 69, 32 / 375), (0, 0, 64 / 375), (150, 50, 96 / 375)])
   \<and> consecutiveSilences (feedWindows initialState [(440, 69, 32 / 375), (0, 0, 64 / 375), (150, 50, 96 / 375)]) = 2
   \<and> noteDefined exactLog2
   \<and> runCallbacks exactLog2 a4Transform initialState [replicate FFT_SIZE (1 / 2)] = Some a4State
   \<and> consecutiveDetections a4State = 1
   \<and> \<not> 0 < consecutiveSilences a4State"
proof -
  have a: "consecutiveDetections (feedWindows initialState [(440, 69, 32 / 375), (440, 69, 64 / 375)]) = 2"
    by (simp add: smoothing_eval)
  have b: "consecutiveSilences (feedWindows initialState [(440, 69, 32 / 375), (0, 0, 64 / 375), (150, 50, 96 / 375)]) = 2"
    by (simp add: smoothing_eval)
  have c: "consecutiveDetections a4State = 1" by (simp add: a4State_def)
  note inst = counters_exclusive [of initialState 0 0 0 "[(440, 69, 32 / 375), (440, 69, 64 / 375)]"
      exactLog2 a4Transform "[replicate FFT_SIZE (1 / 2)]"]
  have d: "\<not> (0 < consecutiveDetections a4State \<and> 0 < consecutiveSilences a4State)"
    using inst a4_run by blast
  show ?thesis
    using a b c d a4_run noteDefined_exactLog2 inst
      counters_exclusive [of initialState 0 0 0 "[(440, 69, 32 / 375), (0, 0, 64 / 375), (150, 50, 96 / 375)]"
        exactLog2 a4Transform "[]"]
    by simp
qed


subsection \<open>Low frequencies\<close>

lemma noteOnNotes_append: "noteOnNotes (xs @ ys) = noteOnNotes xs @ noteOnNotes ys"
  by (induction xs rule: noteOnNotes.induct) simp_all

lemma detectionsInv_step: "detectionsInv s \<Longrightarrow> detectionsInv (temporalSmoothing s f n t)"
  by (auto simp: detectionsInv_def temporalSmoothing_def Let_def noteOnNotes_append)

lemma detectionsInv_run:
  "runCallbacks libm_log2 fftw_execute initialState buffers = Some s \<Longrightarrow> detectionsInv s"
  by (erule runCallbacks_preserves [where P = detectionsInv, rotated -1])
     (simp_all add: detectionsInv_step, simp_all add: detectionsInv_def initialState_def)

lemma detectionsInv_feed: "detectionsInv (feedWindows initialState windows)"
  by (rule feedWindows_preserves [where P = detectionsInv])
     (simp_all add: detectionsInv_step, simp_all add: detectionsInv_def initialState_def)

lemma low_frequency_step:
  "f \<le> 200 \<Longrightarrow> temporalSmoothing st f n t = temporalSmoothing st 0 0 t"
  by (simp add: temporalSmoothing_def)

lemma low_frequency_window:
  assumes low: "detectFundamentalFrequency fftw_execute w \<le> 200"
    and res: "analyseWindow libm_log2 fftw_execute st w = Some s"
  shows "s = temporalSmoothing st 0 0 (timestampSec (framesProcessed st))"
proof -
  from res obtain n where
    "s = temporalSmoothing st (detectFundamentalFrequency fftw_execute w) n
           (timestampSec (framesProcessed st))"
    unfolding analyseWindow_Some by blast
  then show ?thesis using low_frequency_step [OF low] by simp
qed

lemma low_frequency_window_defined:
  assumes low: "detectFundamentalFrequency fftw_execute w \<le> 200"
    and defined: "noteDefined libm_log2"
  shows "analyseWindow libm_log2 fftw_execute st w
    = Some (temporalSmoothing st 0 0 (timestampSec (framesProcessed st)))"
  using analyseWindow_defined [OF defined, of fftw_execute st w] low_frequency_window [OF low]
  by blast

text \<open>A transform that returns the spectral frame with a single component in bin 20.\<close>

lemma detect_lowTone:
  "detectFundamentalFrequency (\<lambda>input i. lowToneSpectrum ! i) (replicate FFT_SIZE (1 / 2)) = 1875 / 16"
  using spectralPeak_lowTone
  by (simp add: detectFundamentalFrequency_def passesNoiseGate_half fft_const length_lowTone FFT_SIZE_pos)

text \<open>
  C10. In every run from the initial state each logged detection has a frequency above
  200 Hz and the Note-On messages are exactly the logged detections, so no Note-On is
  emitted for a frequency of 200 Hz or below. A window whose detected frequency is at
  most 200 Hz is handled exactly as a window without pitch. The estimator does return
  such frequencies: 117.1875 Hz for \<open>lowToneSpectrum\<close>.
\<close>

theorem low_frequency_is_silence:
  "(\<forall>s. runCallbacks libm_log2 fftw_execute initialState buffers = Some s \<longrightarrow>
       list_all (\<lambda>d. 200 < frequencyHz d) (recordedDetections s)
       \<and> map midiNote (recordedDetections s) = noteOnNotes (midiStream s))
   \<and> (noteDefined libm_log2 \<longrightarrow>
         (\<exists>s. runCallbacks libm_log2 fftw_execute initialState buffers = Some s))
   \<and> list_all (\<lambda>d. 200 < frequencyHz d) (recordedDetections (feedWindows initialState windows))
   \<and> map midiNote (recordedDetections (feedWindows initialState windows))
       = noteOnNotes (midiStream (feedWindows initialState windows))
   \<and> (f \<le> 200 \<longrightarrow> temporalSmoothing st f n t = temporalSmoothing st 0 0 t)
   \<and> (detectFundamentalFrequency fftw_execute w \<le> 200 \<longrightarrow>
        (\<forall>s. analyseWindow libm_log2 fftw_execute st w = Some s \<longrightarrow>
           s = temporalSmoothing st 0 0 (timestampSec (framesProcessed st))))
   \<and> (detectFundamentalFrequency fftw_execute w \<le> 200 \<and> noteDefined libm_log2 \<longrightarrow>
        analyseWindow libm_log2 fftw_execute st w
          = Some (temporalSmoothing st 0 0 (timestampSec (framesProcessed st))))
   \<and> MIN_FREQUENCY \<le> spectralPeak lowToneSpectrum \<and> spectralPeak lowToneSpectrum \<le> 200"
proof -
  have run: "list_all (\<lambda>d. 200 < frequencyHz d) (recordedDetections s)
       \<and> map midiNote (recordedDetections s) = noteOnNotes (midiStream s)"
    if "runCallbacks libm_log2 fftw_execute initialState buffers = Some s" for s
    using detectionsInv_run [OF that] by (simp add: detectionsInv_def)
  have feed: "list_all (\<lambda>d. 200 < frequencyHz d) (recordedDetections (feedWindows initialState windows))
   \<and> map midiNote (recordedDetections (feedWindows initialState windows))
       = noteOnNotes (midiStream (feedWindows initialState windows))"
    using detectionsInv_feed [of windows] by (simp add: detectionsInv_def)
  have tone: "MIN_FREQUENCY \<le> spectralPeak lowToneSpectrum \<and> spectralPeak lowToneSpectrum \<le> 200"
    by (simp add: spectralPeak_lowTone MIN_FREQUENCY_def)
  show ?thesis
    using run feed tone low_frequency_step [of f st n t]
      low_frequency_window [of fftw_execute w libm_log2 st]
      low_frequency_window_defined [of fftw_execute w libm_log2 st]
      runCallbacks_defined [of libm_log2 fftw_execute initialState buffers]
    by blast
qed

theorem low_frequency_is_silence_witness:
  "detectFundamentalFrequency (\<lambda>input i. lowToneSpectrum ! i) (replicate FFT_SIZE (1 / 2)) = 1875 / 16
   \<and> detectFundamentalFrequency (\<lambda>input i. lowToneSpectrum ! i) (replicate FFT_SIZE (1 / 2)) \<le> 200
   \<and> noteDefined exactLog2
   \<and> analyseWindow exactLog2 (\<lambda>input i. lowToneSpectrum ! i)
         (temporalSmoothing initialState 440 69 (32 / 375)) (replicate FFT_SIZE (1 / 2))
       = Some (temporalSmoothing (temporalSmoothing initialState 440 69 (32 / 375)) 0 0 (32 / 375))
   \<and> midiStream (temporalSmoothing (temporalSmoothing initialState 440 69 (32 / 375)) 0 0 (32 / 375))
       = [Pm_WriteShort 0 (Pm_Message 0x90 69 100), Pm_WriteShort 0 (Pm_Message 0x90 69 0)]
   \<and> map frequencyHz (recordedDetections
         (temporalSmoothing (temporalSmoothing initialState 440 69 (32 / 375)) 0 0 (32 / 375)))
       = [440]
   \<and> runCallbacks exactLog2 a4Transform initialState [replicate FFT_SIZE (1 / 2)] = Some a4State
   \<and> list_all (\<lambda>d. 200 < frequencyHz d) (recordedDetections a4State)
   \<and> map midiNote (recordedDetections a4State) = noteOnNotes (midiStream a4State)
   \<and> map frequencyHz (recordedDetections a4State) = [28125 / 64]"
proof -
  have low: "detectFundamentalFrequency (\<lambda>input i. lowToneSpectrum ! i) (replicate FFT_SIZE (1 / 2)) \<le> 200"
    by (simp add: detect_lowTone)
  note inst = low_frequency_is_silence [of exactLog2 "\<lambda>input i. lowToneSpectrum ! i" "[]" "[]" 0
        "temporalSmoothing initialState 440 69 (32 / 375)" 0 0 "replicate FFT_SIZE (1 / 2)"]
  note inst_run = low_frequency_is_silence [of exactLog2 a4Transform "[replicate FFT_SIZE (1 / 2)]"
        "[]" 0 initialState 0 0 "[]"]
  have t0: "timestampSec (framesProcessed (temporalSmoothing initialState 440 69 (32 / 375))) = 32 / 375"
    by (simp add: initialState_def timestampSec_0)
  have "analyseWindow exactLog2 (\<lambda>input i. lowToneSpectrum ! i)
         (temporalSmoothing initialState 440 69 (32 / 375)) (replicate FFT_SIZE (1 / 2))
        = Some (temporalSmoothing (temporalSmoothing initialState 440 69 (32 / 375)) 0 0
            (timestampSec (framesProcessed (temporalSmoothing initialState 440 69 (32 / 375)))))"
    using low noteDefined_exactLog2 inst by blast
  then have an: "analyseWindow exactLog2 (\<lambda>input i. lowToneSpectrum ! i)
         (temporalSmoothing initialState 440 69 (32 / 375)) (replicate FFT_SIZE (1 / 2))
       = Some (temporalSmoothing (temporalSmoothing initialState 440 69 (32 / 375)) 0 0 (32 / 375))"
    by (simp only: t0)
  have run: "list_all (\<lambda>d. 200 < frequencyHz d) (recordedDetections a4State)
       \<and> map midiNote (recordedDetections a4State) = noteOnNotes (midiStream a4State)"
    using inst_run a4_run by blast
  have ev: "midiStream (temporalSmoothing (temporalSmoothing initialState 440 69 (32 / 375)) 0 0 (32 / 375))
       = [Pm_WriteShort 0 (Pm_Message 0x90 69 100), Pm_WriteShort 0 (Pm_Message 0x90 69 0)]"
    "map frequencyHz (recordedDetections
         (temporalSmoothing (temporalSmoothing initialState 440 69 (32 / 375)) 0 0 (32 / 375)))
       = [440]"
    by (simp_all add: smoothing_eval)
  have fr: "map frequencyHz (recordedDetections a4State) = [28125 / 64]"
    by (simp add: a4State_def)
  show ?thesis
    using low an run ev fr a4_run noteDefined_exactLog2 detect_lowTone by blast
qed

subsection \<open>Frames and timestamps\<close>

lemma windowCount_small: "n < FFT_SIZE \<Longrightarrow> windowCount n = 0"
  by (simp add: windowCount_def)

lemma windowCount_step: "FFT_SIZE \<le> n \<Longrightarrow> windowCount n = Suc (windowCount (n - HOP_SIZE))"
proof -
  assume ge: "FFT_SIZE \<le> n"
  have hop: "HOP_SIZE + HOP_SIZE = FFT_SIZE" "0 < HOP_SIZE"
    by (simp_all add: HOP_SIZE_def FFT_SIZE_def)
  show ?thesis
  proof (cases "n - HOP_SIZE < FFT_SIZE")
    case True
    then have "n - FFT_SIZE < HOP_SIZE" using hop ge by linarith
    then show ?thesis using True ge by (simp add: windowCount_def)
  next
    case False
    then have "n - FFT_SIZE = (n - HOP_SIZE - FFT_SIZE) + HOP_SIZE" using hop by linarith
    then have "(n - FFT_SIZE) div HOP_SIZE = (n - HOP_SIZE - FFT_SIZE) div HOP_SIZE + 1"
      using hop(2) by (metis div_add_self2 less_numeral_extra(3))
    then show ?thesis using False ge by (simp add: windowCount_def)
  qed
qed

lemma windowCount_le: "windowCount n * HOP_SIZE \<le> n"
proof (induction n rule: less_induct)
  case (less n)
  show ?case
  proof (cases "n < FFT_SIZE")
    case True
    then show ?thesis by (simp add: windowCount_small)
  next
    case False
    have hop: "HOP_SIZE + HOP_SIZE = FFT_SIZE" "0 < HOP_SIZE"
      by (simp_all add: HOP_SIZE_def FFT_SIZE_def)
    have "windowCount (n - HOP_SIZE) * HOP_SIZE \<le> n - HOP_SIZE"
      using less.IH [of "n - HOP_SIZE"] False hop by simp
    then show ?thesis using False hop by (simp add: windowCount_step)
  qed
qed

lemma windowCount_add:
  "windowCount (n + m) = windowCount n + windowCount (n - windowCount n * HOP_SIZE + m)"
proof (induction n rule: less_induct)
  case (less n)
  show ?case
  proof (cases "n < FFT_SIZE")
    case True
    then show ?thesis by (simp add: windowCount_small)
  next
    case False
    have hop: "HOP_SIZE + HOP_SIZE = FFT_SIZE" "0 < HOP_SIZE"
      by (simp_all add: HOP_SIZE_def FFT_SIZE_def)
    have ge: "FFT_SIZE \<le> n" "FFT_SIZE \<le> n + m" "HOP_SIZE \<le> n" using False hop by simp_all
    have IH: "windowCount (n - HOP_SIZE + m) =
      windowCount (n - HOP_SIZE) + windowCount (n - HOP_SIZE - windowCount (n - HOP_SIZE) * HOP_SIZE + m)"
      using less.IH [of "n - HOP_SIZE"] ge hop by simp
    have "windowCount (n + m) = Suc (windowCount (n + m - HOP_SIZE))"
      using ge by (simp add: windowCount_step)
    also have "n + m - HOP_SIZE = n - HOP_SIZE + m" using ge by simp
    finally have "windowCount (n + m) = Suc (windowCount (n - HOP_SIZE + m))" .
    moreover have "windowCount n = Suc (windowCount (n - HOP_SIZE))"
      using ge by (simp add: windowCount_step)
    moreover have "n - Suc (windowCount (n - HOP_SIZE)) * HOP_SIZE
        = n - HOP_SIZE - windowCount (n - HOP_SIZE) * HOP_SIZE"
      by simp
    ultimately show ?thesis using IH by simp
  qed
qed

lemma drainWindows_frames:
  "drainWindows libm_log2 fftw_execute st = Some s \<Longrightarrow>
   framesProcessed s
     = framesProcessed st + of_nat (windowCount (length (overlapBuffer st)) * HOP_SIZE)
   \<and> length (overlapBuffer s)
     = length (overlapBuffer st) - windowCount (length (overlapBuffer st)) * HOP_SIZE"
proof (induction libm_log2 fftw_execute st rule: drainWindows.induct)
  case (1 libm_log2 fftw_execute st)
  show ?case
  proof (cases "FFT_SIZE \<le> length (overlapBuffer st)")
    case True
    from drainWindows_step [OF True "1.prems"] obtain st1
      where p: "processWindow libm_log2 fftw_execute st = Some st1"
        and d: "drainWindows libm_log2 fftw_execute st1 = Some s"
      by blast
    note IH = "1.IH" [OF True p d]
    have f1: "framesProcessed st1 = framesProcessed st + of_nat HOP_SIZE"
      using p by (rule framesProcessed_processWindow)
    have b1: "overlapBuffer st1 = drop HOP_SIZE (overlapBuffer st)"
      using p by (rule overlapBuffer_processWindow)
    show ?thesis
      using IH True by (simp add: f1 b1 windowCount_step algebra_simps)
  next
    case False
    then show ?thesis using "1.prems" by (simp add: drainWindows_done windowCount_small)
  qed
qed

lemma framesInv_paCallback:
  assumes inv: "framesInv n st"
    and res: "paCallback libm_log2 fftw_execute st inputBuffer = Some s"
  shows "framesInv (n + length inputBuffer) s"
proof -
  let ?st1 = "st\<lparr>overlapBuffer := overlapBuffer st @ inputBuffer\<rparr>"
  from res obtain s2 where dr: "drainWindows libm_log2 fftw_execute ?st1 = Some s2"
    and s: "s = s2\<lparr>callbackCount := callbackCount s2 + 1\<rparr>"
    unfolding paCallback_Some by blast
  have len1: "length (overlapBuffer ?st1) = n - windowCount n * HOP_SIZE + length inputBuffer"
    using inv by (simp add: framesInv_def)
  have fp1: "framesProcessed ?st1 = of_nat (windowCount n * HOP_SIZE)"
    using inv by (simp add: framesInv_def)
  note d = drainWindows_frames [OF dr]
  note add = windowCount_add [of n "length inputBuffer"]
  have le: "windowCount n * HOP_SIZE \<le> n" by (rule windowCount_le)
  have "framesProcessed s2 = of_nat (windowCount (n + length inputBuffer) * HOP_SIZE)"
    using d fp1 len1 add by (simp add: algebra_simps)
  moreover have "length (overlapBuffer s2)
      = n + length inputBuffer - windowCount (n + length inputBuffer) * HOP_SIZE"
    using d len1 add le by (simp add: algebra_simps)
  ultimately show ?thesis by (simp add: framesInv_def s)
qed

lemma framesInv_run:
  "framesInv n st \<Longrightarrow> runCallbacks libm_log2 fftw_execute st buffers = Some s \<Longrightarrow>
   framesInv (n + length (concat buffers)) s"
proof (induction buffers arbitrary: n st)
  case Nil
  then show ?case by simp
next
  case (Cons b buffers)
  from Cons.prems(2) obtain s1
    where c: "paCallback libm_log2 fftw_execute st b = Some s1"
      and r: "runCallbacks libm_log2 fftw_execute s1 buffers = Some s"
    by (auto split: option.splits)
  from Cons.IH [OF framesInv_paCallback [OF Cons.prems(1) c] r]
  show ?case by (simp add: add.assoc)
qed

lemma framesProcessed_run:
  assumes "runCallbacks libm_log2 fftw_execute initialState buffers = Some s"
  shows "framesProcessed s = of_nat (windowCount (length (concat buffers)) * HOP_SIZE)"
proof -
  have "framesInv 0 initialState"
    by (simp add: framesInv_def initialState_def windowCount_def FFT_SIZE_def)
  from framesInv_run [OF this assms] show ?thesis
    by (simp add: framesInv_def)
qed

text \<open>
  C5 as stated fails for the MIDI events: the first window of a tone near A4 starts at
  frame 0, its centre time is 32/375 s, the logged detection carries that time, but
  the Note-On message is written with timestamp 0.
\<close>

theorem event_timestamp_counterexample:
  "paCallback exactLog2 a4Transform initialState (replicate FFT_SIZE (1 / 2)) = Some a4State
   \<and> midiStream a4State = [Pm_WriteShort 0 (Pm_Message 0x90 69 100)]
   \<and> map pmTimestamp (midiStream a4State) = [0]
   \<and> recordedDetections a4State
     = [\<lparr>timeSec = 32 / 375, frequencyHz = 28125 / 64, midiNote = 69\<rparr>]
   \<and> timestampSec 0 = 32 / 375"
  by (simp add: a4_callback timestampSec_0) (simp add: a4State_def)


lemma detections_analyseWindow:
  assumes "analyseWindow libm_log2 fftw_execute st w = Some s"
  shows "recordedDetections s = recordedDetections st
   \<or> (\<exists>f n. recordedDetections s = recordedDetections st @
        [\<lparr>timeSec = (real (unat (framesProcessed st)) + real FFT_SIZE / 2) / real SAMPLE_RATE,
          frequencyHz = f, midiNote = n\<rparr>])"
proof -
  from assms obtain n where
    s: "s = temporalSmoothing st (detectFundamentalFrequency fftw_execute w) n
              (timestampSec (framesProcessed st))"
    unfolding analyseWindow_Some by blast
  show ?thesis unfolding s by (simp add: temporalSmoothing_def Let_def timestampSec_def)
qed

lemma detections_processWindow:
  assumes "processWindow libm_log2 fftw_execute st = Some s"
  shows "recordedDetections s = recordedDetections st
   \<or> (\<exists>f n. recordedDetections s = recordedDetections st @
        [\<lparr>timeSec = (real (unat (framesProcessed st)) + real FFT_SIZE / 2) / real SAMPLE_RATE,
          frequencyHz = f, midiNote = n\<rparr>])"
proof -
  from assms obtain a where
    a: "analyseWindow libm_log2 fftw_execute st (take FFT_SIZE (overlapBuffer st)) = Some a"
    and s: "s = a\<lparr>overlapBuffer := drop HOP_SIZE (overlapBuffer st),
                  framesProcessed := framesProcessed st + of_nat HOP_SIZE\<rparr>"
    unfolding processWindow_Some by blast
  show ?thesis using detections_analyseWindow [OF a] by (simp add: s)
qed

lemma midi_timestamps_step:
  "list_all (\<lambda>w. pmTimestamp w = 0) (midiStream s) \<Longrightarrow>
   list_all (\<lambda>w. pmTimestamp w = 0) (midiStream (temporalSmoothing s f n t))"
  by (simp add: temporalSmoothing_def Let_def)

lemma midi_timestamps_run:
  "runCallbacks libm_log2 fftw_execute initialState buffers = Some s \<Longrightarrow>
   list_all (\<lambda>w. pmTimestamp w = 0) (midiStream s)"
  by (erule runCallbacks_preserves
        [where P = "\<lambda>s. list_all (\<lambda>w. pmTimestamp w = 0) (midiStream s)", rotated -1])
     (simp_all add: midi_timestamps_step, simp add: initialState_def)

lemma unat_of_nat_64: "n < 2 ^ 64 \<Longrightarrow> unat (of_nat n :: 64 word) = n"
  by (simp add: unat_of_nat)

lemma silence_no_detection:
  "\<not> (0 < n \<and> 200 < f) \<Longrightarrow>
   recordedDetections (temporalSmoothing st f n t) = recordedDetections st"
  by (auto simp: temporalSmoothing_def Let_def)

text \<open>
  C5 (amended). Each processed window advances \<open>framesProcessed\<close> by exactly
  \<open>HOP_SIZE\<close>; after any sequence of callbacks from the initial state it is the number
  of windows processed times \<open>HOP_SIZE\<close> (in 64-bit arithmetic), which depends only on
  the number of samples received. A window that starts at frame F adds at most one
  entry to the detection log, and its timestamp is \<open>(F + FFT_SIZE / 2) / SAMPLE_RATE\<close>.
  The MIDI messages are all written with timestamp 0, and a window without a note
  above 200 Hz (in particular one that ends a note) adds no entry to the log.
\<close>

theorem frames_and_timestamps:
  "(\<forall>s. processWindow libm_log2 fftw_execute st = Some s \<longrightarrow>
       framesProcessed s = framesProcessed st + of_nat HOP_SIZE)
   \<and> (\<forall>s. runCallbacks libm_log2 fftw_execute initialState buffers = Some s \<longrightarrow>
         framesProcessed s = of_nat (windowCount (length (concat buffers)) * HOP_SIZE))
   \<and> (\<forall>s. runCallbacks libm_log2 fftw_execute initialState buffers = Some s
           \<and> windowCount (length (concat buffers)) * HOP_SIZE < 2 ^ 64 \<longrightarrow>
         unat (framesProcessed s) = windowCount (length (concat buffers)) * HOP_SIZE)
   \<and> (\<forall>s. processWindow libm_log2 fftw_execute st = Some s \<longrightarrow>
        recordedDetections s = recordedDetections st
        \<or> (\<exists>f n. recordedDetections s = recordedDetections st @
              [\<lparr>timeSec = (real (unat (framesProcessed st)) + real FFT_SIZE / 2) / real SAMPLE_RATE,
                frequencyHz = f, midiNote = n\<rparr>]))
   \<and> (\<forall>s. runCallbacks libm_log2 fftw_execute initialState buffers = Some s \<longrightarrow>
         list_all (\<lambda>w. pmTimestamp w = 0) (midiStream s))
   \<and> (noteDefined libm_log2 \<longrightarrow>
         (\<exists>s. processWindow libm_log2 fftw_execute st = Some s)
         \<and> (\<exists>s. runCallbacks libm_log2 fftw_execute initialState buffers = Some s))
   \<and> (\<not> (0 < n \<and> 200 < f) \<longrightarrow>
         recordedDetections (temporalSmoothing st f n t) = recordedDetections st)"
proof -
  have unat: "unat (framesProcessed s) = windowCount (length (concat buffers)) * HOP_SIZE"
    if "runCallbacks libm_log2 fftw_execute initialState buffers = Some s"
      "windowCount (length (concat buffers)) * HOP_SIZE < 2 ^ 64" for s
    unfolding framesProcessed_run [OF that(1)] using that(2) by (rule unat_of_nat_64)
  show ?thesis
    using unat detections_processWindow [of libm_log2 fftw_execute st]
      framesProcessed_processWindow [of libm_log2 fftw_execute st]
      framesProcessed_run [of libm_log2 fftw_execute buffers]
      midi_timestamps_run [of libm_log2 fftw_execute buffers]
      processWindow_defined [of libm_log2 fftw_execute st]
      runCallbacks_defined [of libm_log2 fftw_execute initialState buffers]
      silence_no_detection [of n f st t]
    by blast
qed

lemma windowCount_one: "windowCount FFT_SIZE = 1"
  by (simp add: windowCount_def HOP_SIZE_def FFT_SIZE_def)

theorem frames_and_timestamps_witness:
  "windowCount (length (concat [replicate FFT_SIZE (1 / 2 :: real)])) * HOP_SIZE < 2 ^ 64
   \<and> noteDefined exactLog2
   \<and> runCallbacks exactLog2 a4Transform initialState [replicate FFT_SIZE (1 / 2)] = Some a4State
   \<and> unat (framesProcessed a4State) = 4096
   \<and> recordedDetections a4State
       = [\<lparr>timeSec = (real (unat (0 :: 64 word)) + real FFT_SIZE / 2) / real SAMPLE_RATE,
           frequencyHz = 28125 / 64, midiNote = 69\<rparr>]
   \<and> list_all (\<lambda>w. pmTimestamp w = 0) (midiStream a4State)
   \<and> \<not> (0 < (0::int) \<and> 200 < (0::real))
   \<and> recordedDetections (temporalSmoothing a4State 0 0 (64 / 375)) = recordedDetections a4State
   \<and> lastMidiNote (temporalSmoothing a4State 0 0 (64 / 375)) = 0"
proof -
  have small: "windowCount (length (concat [replicate FFT_SIZE (1 / 2 :: real)])) * HOP_SIZE < 2 ^ 64"
    by (simp add: windowCount_one) (simp add: HOP_SIZE_def FFT_SIZE_def)
  have hop: "windowCount (length (concat [replicate FFT_SIZE (1 / 2 :: real)])) * HOP_SIZE = 4096"
    by (simp add: windowCount_one) (simp add: HOP_SIZE_def FFT_SIZE_def)
  have det: "recordedDetections a4State
       = [\<lparr>timeSec = (real (unat (0 :: 64 word)) + real FFT_SIZE / 2) / real SAMPLE_RATE,
           frequencyHz = 28125 / 64, midiNote = 69\<rparr>]"
    by (simp add: a4State_def FFT_SIZE_def SAMPLE_RATE_def)
  note inst = frames_and_timestamps [of exactLog2 a4Transform a4State "[replicate FFT_SIZE (1 / 2)]" 0 0
      "64 / 375"]
  have "unat (framesProcessed a4State) = windowCount (length (concat [replicate FFT_SIZE (1 / 2 :: real)])) * HOP_SIZE"
    using inst a4_run small by blast
  then have fr: "unat (framesProcessed a4State) = 4096" by (simp only: hop)
  have ts: "list_all (\<lambda>w. pmTimestamp w = 0) (midiStream a4State)"
    using inst a4_run by blast
  have nz: "\<not> (0 < (0::int) \<and> 200 < (0::real))" by simp
  then have off: "recordedDetections (temporalSmoothing a4State 0 0 (64 / 375)) = recordedDetections a4State"
    using inst by blast
  have last: "lastMidiNote (temporalSmoothing a4State 0 0 (64 / 375)) = 0"
    by (simp add: a4State_def temporalSmoothing_def Let_def CONSECUTIVE_SILENCE_REQUIRED_def)
  show ?thesis
    using small fr ts off last det a4_run noteDefined_exactLog2 nz by blast
qed

subsection \<open>The overlap buffer\<close>

lemma two_windows:
  assumes len: "length xs = FFT_SIZE + HOP_SIZE"
  shows "paCallback libm_log2 fftw_execute initialState xs =
        (case analyseWindow libm_log2 fftw_execute (initialState\<lparr>overlapBuffer := xs\<rparr>)
                (take FFT_SIZE xs) of
           None \<Rightarrow> None
         | Some a1 \<Rightarrow>
             (case analyseWindow libm_log2 fftw_execute
                     (a1\<lparr>overlapBuffer := drop HOP_SIZE xs, framesProcessed := of_nat HOP_SIZE\<rparr>)
                     (take FFT_SIZE (drop HOP_SIZE xs)) of
                None \<Rightarrow> None
              | Some a2 \<Rightarrow>
                  Some (a2\<lparr>overlapBuffer := drop (2 * HOP_SIZE) xs,
                           framesProcessed := of_nat (2 * HOP_SIZE),
                           callbackCount := 1\<rparr>)))"
proof -
  have hop: "HOP_SIZE + HOP_SIZE = FFT_SIZE" "0 < HOP_SIZE"
    by (simp_all add: HOP_SIZE_def FFT_SIZE_def)
  have dbl: "HOP_SIZE + HOP_SIZE = 2 * HOP_SIZE" by simp
  define st0 where "st0 = initialState\<lparr>overlapBuffer := xs\<rparr>"
  have f0: "framesProcessed st0 = 0" "overlapBuffer st0 = xs" "callbackCount st0 = 0"
    by (simp_all add: st0_def initialState_def)
  have pa: "paCallback libm_log2 fftw_execute initialState xs =
      map_option (\<lambda>s. s\<lparr>callbackCount := callbackCount s + 1\<rparr>)
        (drainWindows libm_log2 fftw_execute st0)"
    unfolding st0_def by (rule paCallback_initialState)
  have more0: "drainWindows libm_log2 fftw_execute st0 =
     (case processWindow libm_log2 fftw_execute st0 of
        None \<Rightarrow> None
      | Some st1 \<Rightarrow> drainWindows libm_log2 fftw_execute st1)"
    by (rule drainWindows_more) (simp add: f0 len)
  show ?thesis
  proof (cases "analyseWindow libm_log2 fftw_execute st0 (take FFT_SIZE xs)")
    case None
    then have "processWindow libm_log2 fftw_execute st0 = None"
      by (simp add: processWindow_alt f0)
    then have "paCallback libm_log2 fftw_execute initialState xs = None"
      by (simp add: pa more0)
    then show ?thesis using None by (simp add: st0_def [symmetric])
  next
    case (Some a1)
    define st1 where "st1 = a1\<lparr>overlapBuffer := drop HOP_SIZE xs, framesProcessed := of_nat HOP_SIZE\<rparr>"
    have p0: "processWindow libm_log2 fftw_execute st0 = Some st1"
      by (simp add: processWindow_alt f0 Some st1_def)
    have f1: "framesProcessed st1 = of_nat HOP_SIZE" "overlapBuffer st1 = drop HOP_SIZE xs"
      "callbackCount st1 = 0"
      using frames_analyseWindow(3) [OF Some] by (simp_all add: st1_def f0)
    have more1: "drainWindows libm_log2 fftw_execute st1 =
       (case processWindow libm_log2 fftw_execute st1 of
          None \<Rightarrow> None
        | Some st2 \<Rightarrow> drainWindows libm_log2 fftw_execute st2)"
      using hop by (intro drainWindows_more) (simp add: f1 len)
    show ?thesis
    proof (cases "analyseWindow libm_log2 fftw_execute st1 (take FFT_SIZE (drop HOP_SIZE xs))")
      case None
      then have "processWindow libm_log2 fftw_execute st1 = None"
        by (simp add: processWindow_alt f1)
      then have "paCallback libm_log2 fftw_execute initialState xs = None"
        by (simp add: pa more0 p0 more1)
      then show ?thesis using Some None by (simp add: st0_def [symmetric] st1_def [symmetric])
    next
      case a2: (Some a2)
      define st2 where "st2 = a2\<lparr>overlapBuffer := drop (2 * HOP_SIZE) xs,
                                 framesProcessed := of_nat (2 * HOP_SIZE)\<rparr>"
      have p1: "processWindow libm_log2 fftw_execute st1 = Some st2"
        by (simp add: processWindow_alt f1 a2 st2_def dbl)
      have f2: "overlapBuffer st2 = drop (2 * HOP_SIZE) xs" "callbackCount st2 = 0"
        using frames_analyseWindow(3) [OF a2] by (simp_all add: st2_def f1)
      have "length (overlapBuffer st2) < FFT_SIZE" using hop by (simp add: f2 len)
      then have d2: "drainWindows libm_log2 fftw_execute st2 = Some st2"
        by (rule drainWindows_done)
      have "paCallback libm_log2 fftw_execute initialState xs = Some (st2\<lparr>callbackCount := 1\<rparr>)"
        by (simp add: pa more0 p0 more1 p1 d2 f2)
      then show ?thesis
        using Some a2 by (simp add: st0_def [symmetric] st1_def [symmetric] st2_def)
    qed
  qed
qed

text \<open>
  C4. With an empty buffer, a callback that receives \<open>FFT_SIZE + HOP_SIZE\<close> samples
  analyses exactly two windows: the first \<open>FFT_SIZE\<close> samples at frame 0, then the
  \<open>FFT_SIZE\<close> samples that start \<open>HOP_SIZE\<close> later at frame \<open>HOP_SIZE\<close>; fewer than
  \<open>FFT_SIZE\<close> samples stay behind. In general, while the buffer holds at least
  \<open>FFT_SIZE\<close> samples the loop analyses its first \<open>FFT_SIZE\<close> samples and drops
  \<open>HOP_SIZE = FFT_SIZE div 2\<close> of them; with fewer it stops. The callback reaches a
  state whenever the note number is defined on the band.
\<close>

theorem overlap_windows:
  "(length xs = FFT_SIZE + HOP_SIZE \<longrightarrow>
      paCallback libm_log2 fftw_execute initialState xs =
        (case analyseWindow libm_log2 fftw_execute (initialState\<lparr>overlapBuffer := xs\<rparr>)
                (take FFT_SIZE xs) of
           None \<Rightarrow> None
         | Some a1 \<Rightarrow>
             (case analyseWindow libm_log2 fftw_execute
                     (a1\<lparr>overlapBuffer := drop HOP_SIZE xs, framesProcessed := of_nat HOP_SIZE\<rparr>)
                     (take FFT_SIZE (drop HOP_SIZE xs)) of
                None \<Rightarrow> None
              | Some a2 \<Rightarrow>
                  Some (a2\<lparr>overlapBuffer := drop (2 * HOP_SIZE) xs,
                           framesProcessed := of_nat (2 * HOP_SIZE),
                           callbackCount := 1\<rparr>)))
      \<and> framesProcessed (initialState\<lparr>overlapBuffer := xs\<rparr>) = 0
      \<and> length (take FFT_SIZE xs) = FFT_SIZE
      \<and> length (take FFT_SIZE (drop HOP_SIZE xs)) = FFT_SIZE
      \<and> length (drop (2 * HOP_SIZE) xs) < FFT_SIZE)
   \<and> (FFT_SIZE \<le> length (overlapBuffer st) \<longrightarrow>
        drainWindows libm_log2 fftw_execute st =
          (case analyseWindow libm_log2 fftw_execute st (take FFT_SIZE (overlapBuffer st)) of
             None \<Rightarrow> None
           | Some a \<Rightarrow>
               drainWindows libm_log2 fftw_execute
                 (a\<lparr>overlapBuffer := drop HOP_SIZE (overlapBuffer st),
                    framesProcessed := framesProcessed st + of_nat HOP_SIZE\<rparr>)))
   \<and> (length (overlapBuffer st) < FFT_SIZE \<longrightarrow> drainWindows libm_log2 fftw_execute st = Some st)
   \<and> HOP_SIZE = FFT_SIZE div 2
   \<and> (noteDefined libm_log2 \<longrightarrow>
        (\<exists>s. paCallback libm_log2 fftw_execute initialState xs = Some s)
        \<and> (\<exists>s. drainWindows libm_log2 fftw_execute st = Some s)
        \<and> (\<forall>a w. \<exists>s. analyseWindow libm_log2 fftw_execute a w = Some s))"
proof -
  note two = two_windows [of xs libm_log2 fftw_execute]
  have lens: "length (take FFT_SIZE xs) = FFT_SIZE"
      "length (take FFT_SIZE (drop HOP_SIZE xs)) = FFT_SIZE"
      "length (drop (2 * HOP_SIZE) xs) < FFT_SIZE"
    if "length xs = FFT_SIZE + HOP_SIZE"
    using that by (simp_all add: HOP_SIZE_def FFT_SIZE_def)
  have init: "framesProcessed (initialState\<lparr>overlapBuffer := xs\<rparr>) = 0"
    by (simp add: initialState_def)
  have more: "drainWindows libm_log2 fftw_execute st =
          (case analyseWindow libm_log2 fftw_execute st (take FFT_SIZE (overlapBuffer st)) of
             None \<Rightarrow> None
           | Some a \<Rightarrow>
               drainWindows libm_log2 fftw_execute
                 (a\<lparr>overlapBuffer := drop HOP_SIZE (overlapBuffer st),
                    framesProcessed := framesProcessed st + of_nat HOP_SIZE\<rparr>))"
    if "FFT_SIZE \<le> length (overlapBuffer st)"
    using drainWindows_more [OF that, of libm_log2 fftw_execute]
    by (simp add: processWindow_alt split: option.splits)
  have half: "HOP_SIZE = FFT_SIZE div 2" by (simp add: HOP_SIZE_def)
  have defined: "(\<exists>s. paCallback libm_log2 fftw_execute initialState xs = Some s)
        \<and> (\<exists>s. drainWindows libm_log2 fftw_execute st = Some s)
        \<and> (\<forall>a w. \<exists>s. analyseWindow libm_log2 fftw_execute a w = Some s)"
    if "noteDefined libm_log2"
    using paCallback_defined [OF that] drainWindows_defined [OF that] analyseWindow_defined [OF that]
    by blast
  show ?thesis
    using two lens init more drainWindows_done [of st libm_log2 fftw_execute] half defined
    by blast
qed

theorem overlap_windows_witness:
  "length (replicate (FFT_SIZE + HOP_SIZE) (1 / 2 :: real)) = FFT_SIZE + HOP_SIZE
   \<and> noteDefined exactLog2
   \<and> paCallback exactLog2 a4Transform initialState (replicate (FFT_SIZE + HOP_SIZE) (1 / 2))
       = Some
           ((temporalSmoothing
               ((temporalSmoothing (initialState\<lparr>overlapBuffer := replicate (FFT_SIZE + HOP_SIZE) (1 / 2)\<rparr>)
                   (28125 / 64) 69 (timestampSec 0))
                  \<lparr>overlapBuffer := replicate FFT_SIZE (1 / 2), framesProcessed := of_nat HOP_SIZE\<rparr>)
               (28125 / 64) 69 (timestampSec (of_nat HOP_SIZE)))
              \<lparr>overlapBuffer := replicate HOP_SIZE (1 / 2), framesProcessed := of_nat (2 * HOP_SIZE),
                callbackCount := 1\<rparr>)
   \<and> recordedDetections
        (temporalSmoothing
           ((temporalSmoothing (initialState\<lparr>overlapBuffer := replicate (FFT_SIZE + HOP_SIZE) (1 / 2)\<rparr>)
               (28125 / 64) 69 (timestampSec 0))
              \<lparr>overlapBuffer := replicate FFT_SIZE (1 / 2), framesProcessed := of_nat HOP_SIZE\<rparr>)
           (28125 / 64) 69 (timestampSec (of_nat HOP_SIZE)))
       = [\<lparr>timeSec = 32 / 375, frequencyHz = 28125 / 64, midiNote = 69\<rparr>]
   \<and> consecutiveDetections
        (temporalSmoothing
           ((temporalSmoothing (initialState\<lparr>overlapBuffer := replicate (FFT_SIZE + HOP_SIZE) (1 / 2)\<rparr>)
               (28125 / 64) 69 (timestampSec 0))
              \<lparr>overlapBuffer := replicate FFT_SIZE (1 / 2), framesProcessed := of_nat HOP_SIZE\<rparr>)
           (28125 / 64) 69 (timestampSec (of_nat HOP_SIZE)))
       = 2"
proof -
  have len: "length (replicate (FFT_SIZE + HOP_SIZE) (1 / 2 :: real)) = FFT_SIZE + HOP_SIZE"
    by simp
  have w0: "take FFT_SIZE (replicate (FFT_SIZE + HOP_SIZE) (1 / 2 :: real)) = replicate FFT_SIZE (1 / 2)"
    by simp
  have w1: "take FFT_SIZE (drop HOP_SIZE (replicate (FFT_SIZE + HOP_SIZE) (1 / 2 :: real)))
      = replicate FFT_SIZE (1 / 2)"
    by simp
  have b1: "drop HOP_SIZE (replicate (FFT_SIZE + HOP_SIZE) (1 / 2 :: real)) = replicate FFT_SIZE (1 / 2)"
    by simp
  have w2: "take FFT_SIZE (replicate FFT_SIZE (1 / 2 :: real)) = replicate FFT_SIZE (1 / 2)"
    by simp
  have rest: "drop (2 * HOP_SIZE) (replicate (FFT_SIZE + HOP_SIZE) (1 / 2 :: real)) = replicate HOP_SIZE (1 / 2)"
    by (simp add: HOP_SIZE_def FFT_SIZE_def)
  have f0: "framesProcessed (initialState\<lparr>overlapBuffer := replicate (FFT_SIZE + HOP_SIZE) (1 / 2)\<rparr>) = 0"
    by (simp add: initialState_def)
  have eq: "paCallback exactLog2 a4Transform initialState (replicate (FFT_SIZE + HOP_SIZE) (1 / 2)) =
        (case analyseWindow exactLog2 a4Transform
                (initialState\<lparr>overlapBuffer := replicate (FFT_SIZE + HOP_SIZE) (1 / 2)\<rparr>)
                (replicate FFT_SIZE (1 / 2)) of
           None \<Rightarrow> None
         | Some a1 \<Rightarrow>
             (case analyseWindow exactLog2 a4Transform
                     (a1\<lparr>overlapBuffer := replicate FFT_SIZE (1 / 2), framesProcessed := of_nat HOP_SIZE\<rparr>)
                     (replicate FFT_SIZE (1 / 2)) of
                None \<Rightarrow> None
              | Some a2 \<Rightarrow>
                  Some (a2\<lparr>overlapBuffer := replicate HOP_SIZE (1 / 2),
                           framesProcessed := of_nat (2 * HOP_SIZE),
                           callbackCount := 1\<rparr>)))"
    using overlap_windows [of "replicate (FFT_SIZE + HOP_SIZE) (1 / 2)" exactLog2 a4Transform initialState] len
    by (simp only: w0 b1 w2 rest)
  have run: "paCallback exactLog2 a4Transform initialState (replicate (FFT_SIZE + HOP_SIZE) (1 / 2))
       = Some
           ((temporalSmoothing
               ((temporalSmoothing (initialState\<lparr>overlapBuffer := replicate (FFT_SIZE + HOP_SIZE) (1 / 2)\<rparr>)
                   (28125 / 64) 69 (timestampSec 0))
                  \<lparr>overlapBuffer := replicate FFT_SIZE (1 / 2), framesProcessed := of_nat HOP_SIZE\<rparr>)
               (28125 / 64) 69 (timestampSec (of_nat HOP_SIZE)))
              \<lparr>overlapBuffer := replicate HOP_SIZE (1 / 2), framesProcessed := of_nat (2 * HOP_SIZE),
                callbackCount := 1\<rparr>)"
    unfolding eq analyse_a4 by (simp add: f0)
  have obs: "recordedDetections
        (temporalSmoothing
           ((temporalSmoothing (initialState\<lparr>overlapBuffer := replicate (FFT_SIZE + HOP_SIZE) (1 / 2)\<rparr>)
               (28125 / 64) 69 (timestampSec 0))
              \<lparr>overlapBuffer := replicate FFT_SIZE (1 / 2), framesProcessed := of_nat HOP_SIZE\<rparr>)
           (28125 / 64) 69 (timestampSec (of_nat HOP_SIZE)))
       = [\<lparr>timeSec = 32 / 375, frequencyHz = 28125 / 64, midiNote = 69\<rparr>]"
    "consecutiveDetections
        (temporalSmoothing
           ((temporalSmoothing (initialState\<lparr>overlapBuffer := replicate (FFT_SIZE + HOP_SIZE) (1 / 2)\<rparr>)
               (28125 / 64) 69 (timestampSec 0))
              \<lparr>overlapBuffer := replicate FFT_SIZE (1 / 2), framesProcessed := of_nat HOP_SIZE\<rparr>)
           (28125 / 64) 69 (timestampSec (of_nat HOP_SIZE)))
       = 2"
    by (simp_all add: smoothing_eval timestampSec_0)
  show ?thesis using len run obs noteDefined_exactLog2 by blast
qed


section \<open>The detection log: reading back what was written\<close>

subsection \<open>Digits\<close>

lemma digit_cases: "d < 10 \<Longrightarrow> d = 0 \<or> d = 1 \<or> d = 2 \<or> d = 3 \<or> d = 4 \<or> d = 5 \<or> d = 6 \<or> d = 7 \<or> d = 8 \<or> d = (9::nat)"
  by arith

lemma digit_val_digit_char: "d < 10 \<Longrightarrow> digit_val (digit_char d) = d"
  using digit_cases [of d] by (auto simp: digit_val_def digit_char_def)

lemma is_digit_digit_char: "d < 10 \<Longrightarrow> is_digit (digit_char d)"
  using digit_cases [of d] by (auto simp: is_digit_def digit_char_def)

lemma digit_char_zero_iff: "d < 10 \<Longrightarrow> digit_char d = CHR ''0'' \<longleftrightarrow> d = 0"
  using digit_cases [of d] by (auto simp: digit_char_def)

lemma dec_value_Nil [simp]: "dec_value [] = 0"
  by (simp add: dec_value_def)

lemma dec_value_snoc: "dec_value (s @ [c]) = 10 * dec_value s + digit_val c"
  by (simp add: dec_value_def)

lemma dec_value_append: "dec_value (s @ t) = dec_value s * 10 ^ length t + dec_value t"
proof (induction t rule: rev_induct)
  case Nil
  then show ?case by simp
next
  case (snoc c t)
  have "dec_value (s @ t @ [c]) = 10 * dec_value (s @ t) + digit_val c"
    using dec_value_snoc [of "s @ t" c] by simp
  then show ?case using snoc by (simp add: dec_value_snoc algebra_simps)
qed

lemma length_dec_digits [simp]: "length (dec_digits k n) = k"
  by (induction k arbitrary: n) simp_all

lemma dec_value_dec_digits: "dec_value (dec_digits k n) = n mod 10 ^ k"
proof (induction k arbitrary: n)
  case 0
  then show ?case by simp
next
  case (Suc k)
  have "dec_value (dec_digits (Suc k) n) = 10 * ((n div 10) mod 10 ^ k) + n mod 10"
    by (simp add: dec_value_snoc Suc digit_val_digit_char)
  also have "\<dots> = n mod 10 ^ Suc k"
    by (simp add: mod_mult2_eq)
  finally show ?case .
qed

lemma digits_dec_digits: "list_all is_digit (dec_digits k n)"
  by (induction k arbitrary: n) (simp_all add: is_digit_digit_char)

lemma nat_to_string_props:
  "dec_value (nat_to_string n) = n \<and> list_all is_digit (nat_to_string n) \<and> nat_to_string n \<noteq> []"
proof (induction n rule: nat_to_string.induct)
  case (1 n)
  show ?case
  proof (cases "n < 10")
    case True
    then show ?thesis
      by (subst (1 2 3) nat_to_string.simps)
         (simp add: dec_value_def digit_val_digit_char is_digit_digit_char)
  next
    case False
    then have eq: "nat_to_string n = nat_to_string (n div 10) @ [digit_char (n mod 10)]"
      by (subst nat_to_string.simps) simp
    show ?thesis
      using "1.IH" [OF False]
      by (simp add: eq dec_value_snoc digit_val_digit_char is_digit_digit_char)
  qed
qed


subsection \<open>Trailing zeros\<close>

lemma takeWhile_eq_replicate: "takeWhile (\<lambda>c. c = z) xs = replicate (length (takeWhile (\<lambda>c. c = z) xs)) z"
  by (induction xs) simp_all

lemma strip_zeros_decomp:
  "s = strip_zeros s @ replicate (length s - length (strip_zeros s)) CHR ''0''"
proof -
  let ?P = "\<lambda>c. c = CHR ''0''"
  have "rev s = takeWhile ?P (rev s) @ dropWhile ?P (rev s)" by simp
  then have "s = rev (dropWhile ?P (rev s)) @ rev (takeWhile ?P (rev s))"
    by (metis rev_append rev_rev_ident)
  moreover have "rev (takeWhile ?P (rev s)) = replicate (length (takeWhile ?P (rev s))) CHR ''0''"
    using takeWhile_eq_replicate [of "CHR ''0''" "rev s"] by (metis rev_replicate)
  moreover have "length (takeWhile ?P (rev s)) = length s - length (strip_zeros s)"
  proof -
    have "length (takeWhile ?P (rev s)) + length (dropWhile ?P (rev s)) = length s"
      by (metis length_append length_rev takeWhile_dropWhile_id)
    then show ?thesis by (simp add: strip_zeros_def)
  qed
  ultimately show ?thesis by (simp add: strip_zeros_def)
qed

lemma length_strip_zeros: "length (strip_zeros s) \<le> length s"
  by (simp add: strip_zeros_def length_dropWhile_le [of _ "rev s", simplified])

lemma set_strip_zeros: "set (strip_zeros s) \<subseteq> set s"
  using set_dropWhileD [of _ "\<lambda>c. c = CHR ''0''" "rev s"] by (auto simp: strip_zeros_def)

lemma digits_strip_zeros: "list_all is_digit s \<Longrightarrow> list_all is_digit (strip_zeros s)"
  using set_strip_zeros [of s] by (auto simp: list_all_iff)

lemma dec_value_zeros: "dec_value (replicate j CHR ''0'') = 0"
proof (induction j)
  case 0
  then show ?case by simp
next
  case (Suc j)
  have "dec_value ([CHR ''0''] @ replicate j CHR ''0'') = 0"
    unfolding dec_value_append using Suc by (simp add: dec_value_def digit_val_def)
  then show ?case by simp
qed

lemma frac_strip_zeros:
  "real (dec_value (strip_zeros s)) / 10 ^ length (strip_zeros s) = real (dec_value s) / 10 ^ length s"
proof -
  define t where "t = strip_zeros s"
  define j where "j = length s - length t"
  have s: "s = t @ replicate j CHR ''0''"
    unfolding t_def j_def by (rule strip_zeros_decomp)
  have "dec_value s = dec_value t * 10 ^ j"
    by (subst s) (simp add: dec_value_append dec_value_zeros)
  moreover have "length s = length t + j" by (subst s) simp
  ultimately show ?thesis
    unfolding t_def [symmetric] by (simp add: power_add)
qed

lemma strip_zeros_Nil_value: "strip_zeros s = [] \<Longrightarrow> dec_value s = 0"
  using strip_zeros_decomp [of s] by (metis append_Nil dec_value_zeros)

subsection \<open>Splitting at a separator\<close>

lemma splitOn_none: "c \<notin> set s \<Longrightarrow> splitOn c s = [s]"
  by (induction s) auto

lemma splitOn_append: "c \<notin> set a \<Longrightarrow> splitOn c (a @ c # rest) = a # splitOn c rest"
  by (induction a) auto

lemma is_digit_not_sep:
  "is_digit c \<Longrightarrow> c \<noteq> CHR ''.'' \<and> c \<noteq> CHR ''e'' \<and> c \<noteq> CHR '','' \<and> c \<noteq> CHR ''-''
     \<and> c \<noteq> CHR ''+'' \<and> c \<noteq> CHR 0x0A"
  by (auto simp: is_digit_def)

lemma digits_no_sep:
  "list_all is_digit s \<Longrightarrow>
   CHR ''.'' \<notin> set s \<and> CHR ''e'' \<notin> set s \<and> CHR '','' \<notin> set s \<and> CHR ''-'' \<notin> set s
     \<and> CHR ''+'' \<notin> set s \<and> CHR 0x0A \<notin> set s"
  using is_digit_not_sep by (auto simp: list_all_iff)


subsection \<open>Mantissa text\<close>

lemma parse_nat_digits: "s \<noteq> [] \<Longrightarrow> list_all is_digit s \<Longrightarrow> parse_nat s = Some (dec_value s)"
  by (simp add: parse_nat_def)

lemma parse_nat_nat_to_string: "parse_nat (nat_to_string n) = Some n"
  using nat_to_string_props [of n] by (simp add: parse_nat_def)

lemma render_mant_digits:
  "list_all (\<lambda>c. is_digit c \<or> c = CHR ''.'') (render_mant k m)"
proof -
  have "list_all is_digit (strip_zeros (dec_digits k (m mod 10 ^ k)))"
    by (rule digits_strip_zeros) (rule digits_dec_digits)
  moreover have "list_all is_digit (nat_to_string (m div 10 ^ k))"
    using nat_to_string_props by blast
  ultimately show ?thesis
    by (auto simp: render_mant_def Let_def list_all_iff)
qed

lemma render_mant_hd: "\<exists>c r. render_mant k m = c # r \<and> is_digit c"
proof -
  obtain c r where "nat_to_string (m div 10 ^ k) = c # r"
    using nat_to_string_props [of "m div 10 ^ k"] by (cases "nat_to_string (m div 10 ^ k)") auto
  moreover have "is_digit c"
    using nat_to_string_props [of "m div 10 ^ k"] calculation by simp
  ultimately show ?thesis by (simp add: render_mant_def Let_def)
qed

lemma parse_mantissa_render: "parse_mantissa (render_mant k m) = Some (real m / 10 ^ k)"
proof -
  define I where "I = nat_to_string (m div 10 ^ k)"
  define D where "D = dec_digits k (m mod 10 ^ k)"
  define F where "F = strip_zeros D"
  have I: "parse_nat I = Some (m div 10 ^ k)" "CHR ''.'' \<notin> set I"
    using nat_to_string_props [of "m div 10 ^ k"] digits_no_sep [of I]
    by (simp_all add: I_def parse_nat_nat_to_string)
  have D: "dec_value D = m mod 10 ^ k" "length D = k" "list_all is_digit D"
    by (simp_all add: D_def dec_value_dec_digits digits_dec_digits)
  have F: "list_all is_digit F" "CHR ''.'' \<notin> set F"
    using digits_strip_zeros [OF D(3)] digits_no_sep [of F] by (simp_all add: F_def)
  have split: "real (m div 10 ^ k) + real (m mod 10 ^ k) / 10 ^ k = real m / 10 ^ k"
  proof -
    have "real (m div 10 ^ k * 10 ^ k + m mod 10 ^ k)
        = real (m div 10 ^ k) * 10 ^ k + real (m mod 10 ^ k)"
      by (simp only: of_nat_add of_nat_mult of_nat_power of_nat_numeral)
    moreover have "m div 10 ^ k * 10 ^ k + m mod 10 ^ k = m" by (rule div_mult_mod_eq)
    ultimately have "real m = real (m div 10 ^ k) * 10 ^ k + real (m mod 10 ^ k)"
      by (simp only:)
    then show ?thesis by (simp add: field_simps)
  qed
  show ?thesis
  proof (cases "F = []")
    case True
    then have "m mod 10 ^ k = 0"
      using strip_zeros_Nil_value [of D] D(1) by (simp add: F_def)
    then have "real (m div 10 ^ k) = real m / 10 ^ k" using split by simp
    moreover have "render_mant k m = I"
      using True by (simp add: render_mant_def Let_def I_def F_def D_def)
    ultimately show ?thesis
      using I by (simp add: parse_mantissa_def splitOn_none)
  next
    case False
    have "render_mant k m = I @ CHR ''.'' # F"
      using False by (simp add: render_mant_def Let_def I_def F_def D_def)
    then have sp: "splitOn CHR ''.'' (render_mant k m) = [I, F]"
      using I(2) F(2) by (simp add: splitOn_append splitOn_none)
    have pf: "parse_nat F = Some (dec_value F)"
      using False F(1) by (rule parse_nat_digits)
    have "real (dec_value F) / 10 ^ length F = real (m mod 10 ^ k) / 10 ^ k"
      unfolding F_def frac_strip_zeros using D by simp
    then show ?thesis
      using I(1) pf split by (simp add: parse_mantissa_def sp)
  qed
qed

subsection \<open>Exponent text and integers\<close>

lemma parse_int_exponent_text: "parse_int (exponent_text e) = Some e"
proof -
  have p: "parse_nat (nat_to_string (nat \<bar>e\<bar>)) = Some (nat \<bar>e\<bar>)"
    by (rule parse_nat_nat_to_string)
  have p0: "parse_nat (CHR ''0'' # nat_to_string (nat \<bar>e\<bar>)) = Some (nat \<bar>e\<bar>)"
  proof -
    have "dec_value ([CHR ''0''] @ nat_to_string (nat \<bar>e\<bar>)) = nat \<bar>e\<bar>"
      unfolding dec_value_append using nat_to_string_props [of "nat \<bar>e\<bar>"]
      by (simp add: dec_value_def digit_val_def)
    moreover have "is_digit CHR ''0''" by (simp add: is_digit_def)
    ultimately show ?thesis
      using nat_to_string_props [of "nat \<bar>e\<bar>"] by (simp add: parse_nat_def)
  qed
  show ?thesis using p p0 by (auto simp: parse_int_def exponent_text_def)
qed

lemma exponent_text_chars:
  "CHR ''e'' \<notin> set (exponent_text e) \<and> CHR '','' \<notin> set (exponent_text e)
   \<and> CHR 0x0A \<notin> set (exponent_text e)"
  using nat_to_string_props [of "nat \<bar>e\<bar>"] digits_no_sep [of "nat_to_string (nat \<bar>e\<bar>)"]
  by (auto simp: exponent_text_def)

lemma parse_int_to_string: "parse_int (to_string n) = Some n"
proof (cases "n < 0")
  case True
  then show ?thesis
    by (simp add: to_string_def parse_int_def parse_nat_nat_to_string)
next
  case False
  obtain c r where cr: "nat_to_string (nat n) = c # r"
    using nat_to_string_props [of "nat n"] by (cases "nat_to_string (nat n)") auto
  have "is_digit c" using nat_to_string_props [of "nat n"] cr by simp
  then have "c \<noteq> CHR ''-''" "c \<noteq> CHR ''+''" using is_digit_not_sep by blast+
  then show ?thesis
    using False parse_nat_nat_to_string [of "nat n"]
    by (simp add: to_string_def parse_int_def cr)
qed

lemma to_string_chars: "CHR '','' \<notin> set (to_string n) \<and> CHR 0x0A \<notin> set (to_string n)"
  using digits_no_sep [of "nat_to_string (nat n)"] digits_no_sep [of "nat_to_string (nat (- n))"]
    nat_to_string_props [of "nat n"] nat_to_string_props [of "nat (- n)"]
  by (auto simp: to_string_def)


subsection \<open>Six significant digits\<close>

lemma decExp_bounds:
  assumes "0 < x"
  shows "10 powi decExp x \<le> x \<and> x < 10 powi (decExp x + 1)"
proof -
  have "10 powr real_of_int (decExp x) \<le> x \<and> x < 10 powr (real_of_int (decExp x) + 1)"
    using floor_log_eq_powr_iff [of x 10 "decExp x"] assms by (simp add: decExp_def)
  moreover have "(10::real) powr real_of_int (decExp x) = 10 powi decExp x"
    by (rule powr_real_of_int') simp_all
  moreover have "(10::real) powr (real_of_int (decExp x) + 1) = 10 powi (decExp x + 1)"
    using powr_real_of_int' [of 10 "decExp x + 1"] by simp
  ultimately show ?thesis by simp
qed

lemma scaled_range:
  assumes "0 < x"
  shows "10 ^ 5 \<le> x * 10 powi (5 - decExp x) \<and> x * 10 powi (5 - decExp x) < 10 ^ 6"
proof -
  define e where "e = decExp x"
  have b: "10 powi e \<le> x" "x < 10 powi (e + 1)"
    using decExp_bounds [OF assms] by (simp_all add: e_def)
  have pos: "(0::real) < 10 powi (5 - e)" by simp
  have "(10::real) powi e * 10 powi (5 - e) = 10 powi (e + (5 - e))"
    by (rule power_int_add [symmetric]) simp
  then have lo: "(10::real) powi e * 10 powi (5 - e) = 10 ^ 5" by simp
  have "(10::real) powi (e + 1) * 10 powi (5 - e) = 10 powi ((e + 1) + (5 - e))"
    by (rule power_int_add [symmetric]) simp
  then have hi: "(10::real) powi (e + 1) * 10 powi (5 - e) = 10 ^ 6" by simp
  have "10 powi e * 10 powi (5 - e) \<le> x * 10 powi (5 - e)"
    using b(1) pos by (simp add: mult_right_mono)
  moreover have "x * 10 powi (5 - e) < 10 powi (e + 1) * 10 powi (5 - e)"
    using b(2) pos by (simp add: mult_strict_right_mono)
  ultimately show ?thesis unfolding e_def [symmetric] lo hi by simp
qed

lemma sig6_range:
  assumes "0 < x" and "sig6 x = (m, e)"
  shows "10 ^ 5 \<le> m \<and> m < 10 ^ 6"
proof -
  define y where "y = x * 10 powi (5 - decExp x)"
  define z where "z = round_half_even y"
  have y: "10 ^ 5 \<le> y" "y < 10 ^ 6" using scaled_range [OF assms(1)] by (simp_all add: y_def)
  have near: "\<bar>real_of_int z - y\<bar> \<le> 1 / 2" unfolding z_def by (rule round_half_even_near)
  have y': "100000 \<le> y" "y < 1000000" using y by simp_all
  have "real_of_int 99999 < real_of_int z" "real_of_int z < real_of_int 1000001"
    using y' near by linarith+
  then have "99999 < z" "z < 1000001" by (simp_all only: of_int_less_iff)
  then have z: "100000 \<le> z" "z \<le> 1000000" by linarith+
  then have "100000 \<le> nat z" "nat z \<le> 1000000" by linarith+
  then show ?thesis
    using assms(2) unfolding sig6_def Let_def y_def [symmetric] z_def [symmetric]
    by (auto split: if_splits)
qed

lemma fixed_value:
  assumes "e \<le> 5"
  shows "real m / 10 ^ nat (5 - e) = real m * 10 powi (e - 5)"
proof (cases "e = 5")
  case True
  then show ?thesis by simp
next
  case False
  then have neg: "\<not> 0 \<le> e - 5" and n: "nat (- (e - 5)) = nat (5 - e)" using assms by simp_all
  have "(10::real) powi (e - 5) = inverse 10 ^ nat (5 - e)"
    unfolding power_int_def using neg n by (simp only: if_False)
  also have "\<dots> = inverse (10 ^ nat (5 - e))" by (rule power_inverse)
  finally show ?thesis by (simp only: divide_inverse)
qed

lemma sci_value: "real m / 10 ^ 5 * 10 powi e = real m * 10 powi (e - 5)"
proof -
  have "(10::real) powi (e + - 5) = 10 powi e * 10 powi (- 5)"
    by (rule power_int_add) simp
  moreover have "(10::real) powi (- 5) = inverse (10 ^ 5)"
    by (simp add: power_int_def power_divide)
  ultimately have "(10::real) powi (e - 5) = 10 powi e * inverse (10 ^ 5)"
    by (simp only: diff_conv_add_uminus)
  then show ?thesis by (simp only: divide_inverse mult.assoc mult.commute [of "inverse (10 ^ 5)"])
qed

lemma render_mant_no_e: "CHR ''e'' \<notin> set (render_mant k m)"
  using render_mant_digits [of k m] is_digit_not_sep by (auto simp: list_all_iff)

lemma render_mant_no_sep: "CHR '','' \<notin> set (render_mant k m) \<and> CHR 0x0A \<notin> set (render_mant k m)"
  using render_mant_digits [of k m] is_digit_not_sep by (auto simp: list_all_iff)

lemma parse_unsigned_format_pos:
  assumes "sig6 x = (m, e)"
  shows "parse_unsigned (format_pos x) = Some (real m * 10 powi (e - 5))"
proof (cases "- 4 \<le> e \<and> e < 6")
  case True
  then have f: "format_pos x = render_mant (nat (5 - e)) m"
    using assms by (simp add: format_pos_def)
  show ?thesis
    using True fixed_value [of e m]
    by (simp add: f parse_unsigned_def splitOn_none render_mant_no_e parse_mantissa_render)
next
  case False
  then have f: "format_pos x = render_mant 5 m @ CHR ''e'' # exponent_text e"
    using assms by (auto simp: format_pos_def)
  have "splitOn CHR ''e'' (format_pos x) = [render_mant 5 m, exponent_text e]"
    using exponent_text_chars [of e]
    by (simp add: f splitOn_append render_mant_no_e splitOn_none)
  then show ?thesis
    using sci_value [of m e]
    by (simp add: parse_unsigned_def parse_mantissa_render parse_int_exponent_text)
qed

lemma format_pos_hd: "\<exists>c r. format_pos x = c # r \<and> is_digit c"
proof -
  obtain m e where me: "sig6 x = (m, e)" by (cases "sig6 x")
  obtain c r where "render_mant (nat (5 - e)) m = c # r" "is_digit c"
    using render_mant_hd by blast
  moreover obtain c' r' where "render_mant 5 m = c' # r'" "is_digit c'"
    using render_mant_hd by blast
  ultimately show ?thesis using me by (auto simp: format_pos_def)
qed

lemma format_pos_no_sep: "CHR '','' \<notin> set (format_pos x) \<and> CHR 0x0A \<notin> set (format_pos x)"
proof -
  obtain m e where me: "sig6 x = (m, e)" by (cases "sig6 x")
  show ?thesis
    using me render_mant_no_sep [of "nat (5 - e)" m] render_mant_no_sep [of 5 m]
      exponent_text_chars [of e]
    by (auto simp: format_pos_def)
qed

lemma format_double_no_sep:
  "CHR '','' \<notin> set (format_double x) \<and> CHR 0x0A \<notin> set (format_double x)"
  using format_pos_no_sep [of x] format_pos_no_sep [of "- x"]
  by (auto simp: format_double_def)

lemma parse_zero: "parse_double ''0'' = Some 0"
  by (simp add: parse_double_def parse_unsigned_def parse_mantissa_def parse_nat_def
      is_digit_def dec_value_def digit_val_def)

lemma parse_double_format_double: "parse_double (format_double x) = Some (round6 x)"
proof -
  consider "x = 0" | "x < 0" | "0 < x" by linarith
  then show ?thesis
  proof cases
    case 1
    then show ?thesis by (simp add: format_double_def round6_def parse_zero)
  next
    case 2
    obtain m e where me: "sig6 (- x) = (m, e)" by (cases "sig6 (- x)")
    have "parse_unsigned (format_pos (- x)) = Some (real m * 10 powi (e - 5))"
      by (rule parse_unsigned_format_pos [OF me])
    then show ?thesis
      using 2 me by (simp add: format_double_def parse_double_def round6_def abs_if)
  next
    case 3
    obtain m e where me: "sig6 x = (m, e)" by (cases "sig6 x")
    obtain c r where cr: "format_pos x = c # r" "is_digit c" using format_pos_hd by blast
    then have "c \<noteq> CHR ''-''" using is_digit_not_sep by blast
    moreover have "parse_unsigned (format_pos x) = Some (real m * 10 powi (e - 5))"
      by (rule parse_unsigned_format_pos [OF me])
    ultimately show ?thesis
      using 3 me cr by (simp add: format_double_def parse_double_def round6_def abs_if)
  qed
qed

subsection \<open>Lines\<close>

lemma parse_line_fields: "parse_line (detectionFields det) = Some (roundDetection det)"
proof -
  have "splitOn CHR '','' (detectionFields det)
      = [format_double (timeSec det), format_double (frequencyHz det), to_string (midiNote det)]"
    using format_double_no_sep to_string_chars
    by (simp add: detectionFields_def splitOn_append splitOn_none)
  then show ?thesis
    by (simp add: parse_line_def parse_double_format_double parse_int_to_string roundDetection_def)
qed

lemma detectionFields_no_newline: "CHR 0x0A \<notin> set (detectionFields det)"
  using format_double_no_sep to_string_chars by (simp add: detectionFields_def)

lemma splitOn_lines:
  "splitOn (CHR 0x0A) (writeDetections recorded) = map detectionFields recorded @ [[]]"
proof (induction recorded)
  case Nil
  then show ?case by (simp add: writeDetections_def)
next
  case (Cons det recorded)
  have "writeDetections (det # recorded)
      = detectionFields det @ CHR 0x0A # writeDetections recorded"
    by (simp add: writeDetections_def)
  then show ?case
    using Cons detectionFields_no_newline [of det] by (simp add: splitOn_append)
qed

lemma those_map_Some: "those (map (\<lambda>x. Some (f x)) xs) = Some (map f xs)"
  by (induction xs) simp_all

lemma those_parse_lines:
  "those (map parse_line (map detectionFields recorded)) = Some (map roundDetection recorded)"
  by (induction recorded) (simp_all add: parse_line_fields)

lemma readLog_writeDetections:
  "readLog (writeDetections recorded) = Some (map roundDetection recorded)"
  by (simp add: readLog_def splitOn_lines those_parse_lines del: map_map)


subsection \<open>The rounding error\<close>

lemma sig6_value:
  assumes "0 < x" and "sig6 x = (m, e)"
  shows "real m * 10 powi (e - 5)
    = real_of_int (round_half_even (x * 10 powi (5 - decExp x))) * 10 powi (decExp x - 5)"
proof -
  define z where "z = round_half_even (x * 10 powi (5 - decExp x))"
  have y: "10 ^ 5 \<le> x * 10 powi (5 - decExp x)"
    using scaled_range [OF assms(1)] by simp
  have near: "\<bar>real_of_int z - x * 10 powi (5 - decExp x)\<bar> \<le> 1 / 2"
    unfolding z_def by (rule round_half_even_near)
  have y': "100000 \<le> x * 10 powi (5 - decExp x)" using y by simp
  have "real_of_int 0 < real_of_int z" using y' near by linarith
  then have zpos: "0 < z" by (simp only: of_int_less_iff)
  show ?thesis
  proof (cases "nat z = 10 ^ 6")
    case True
    then have me: "m = 10 ^ 5" "e = decExp x + 1"
      using assms(2) by (simp_all add: sig6_def Let_def z_def [symmetric])
    have "(10::real) powi ((decExp x - 5) + 1) = 10 powi (decExp x - 5) * 10 powi 1"
      by (rule power_int_add) simp
    then have "(10::real) powi (decExp x + 1 - 5) = 10 powi (decExp x - 5) * 10"
      by (simp add: algebra_simps)
    moreover have "real_of_int z = 10 ^ 6" using True zpos by (simp add: nat_eq_iff)
    ultimately show ?thesis
      unfolding z_def [symmetric] me by simp
  next
    case False
    then have me: "m = nat z" "e = decExp x"
      using assms(2) by (simp_all add: sig6_def Let_def z_def [symmetric])
    show ?thesis unfolding z_def [symmetric] me using zpos by simp
  qed
qed

lemma round6_error: "\<bar>round6 x - x\<bar> \<le> \<bar>x\<bar> * 5 / 10 ^ 6"
proof (cases "x = 0")
  case True
  then show ?thesis by (simp add: round6_def)
next
  case False
  define a where "a = \<bar>x\<bar>"
  have apos: "0 < a" using False by (simp add: a_def)
  obtain m e where me: "sig6 a = (m, e)" by (cases "sig6 a")
  define e0 where "e0 = decExp a"
  define y where "y = a * 10 powi (5 - e0)"
  define z where "z = round_half_even y"
  define u where "u = (10::real) powi (e0 - 5)"
  have upos: "0 < u" by (simp add: u_def)
  have v: "real m * 10 powi (e - 5) = real_of_int z * u"
    using sig6_value [OF apos me] by (simp add: z_def y_def e0_def u_def)
  have "(10::real) powi ((5 - e0) + (e0 - 5)) = 10 powi (5 - e0) * 10 powi (e0 - 5)"
    by (rule power_int_add) simp
  then have inv: "10 powi (5 - e0) * u = 1" by (simp add: u_def)
  have a_eq: "a = y * u"
  proof -
    have "y * u = a * (10 powi (5 - e0) * u)" by (simp add: y_def)
    then show ?thesis using inv by simp
  qed
  have near: "\<bar>real_of_int z - y\<bar> \<le> 1 / 2" unfolding z_def by (rule round_half_even_near)
  have "\<bar>real_of_int z * u - a\<bar> = \<bar>real_of_int z - y\<bar> * u"
    using upos by (simp add: a_eq left_diff_distrib [symmetric] abs_mult)
  then have err: "\<bar>real_of_int z * u - a\<bar> \<le> u / 2"
    using near upos by (simp add: mult_right_mono)
  have "(10::real) powi (e0 + (- 5)) = 10 powi e0 * 10 powi (- 5)"
    by (rule power_int_add) simp
  moreover have "(10::real) powi (- 5) = 1 / 10 ^ 5"
    by (simp add: power_int_def power_divide)
  ultimately have "u = 10 powi e0 / 10 ^ 5" by (simp add: u_def)
  moreover have "10 powi e0 \<le> a" using decExp_bounds [OF apos] by (simp add: e0_def)
  ultimately have "u \<le> a / 10 ^ 5" by (simp add: divide_right_mono)
  then have bound: "\<bar>real_of_int z * u - a\<bar> \<le> a * 5 / 10 ^ 6" using err by simp
  have "round6 x = sgn x * (real_of_int z * u)"
    using False me v by (simp add: round6_def a_def)
  moreover have "\<bar>sgn x * (real_of_int z * u) - x\<bar> = \<bar>real_of_int z * u - a\<bar>"
  proof (cases "0 < x")
    case True
    then show ?thesis by (simp add: a_def)
  next
    case neg: False
    then have "x < 0" using False by simp
    then have "sgn x * (real_of_int z * u) - x = - (real_of_int z * u - a)"
      by (simp add: a_def)
    then show ?thesis by (simp only: abs_minus_cancel)
  qed
  ultimately show ?thesis using bound by (simp add: a_def)
qed

subsection \<open>Concrete values\<close>

lemma decExp_eqI: "0 < x \<Longrightarrow> 10 powi e \<le> x \<Longrightarrow> x < 10 powi (e + 1) \<Longrightarrow> decExp x = e"
proof -
  assume x: "0 < x" and lo: "10 powi e \<le> x" and hi: "x < 10 powi (e + 1)"
  have "(10::real) powr real_of_int e = 10 powi e"
    by (rule powr_real_of_int') simp_all
  moreover have "(10::real) powr (real_of_int e + 1) = 10 powi (e + 1)"
    using powr_real_of_int' [of 10 "e + 1"] by simp
  ultimately show ?thesis
    using floor_log_eq_powr_iff [of x 10 e] x lo hi by (simp add: decExp_def)
qed

lemma sig6_time: "sig6 (32 / 375) = (853333, - 2)"
proof -
  have "decExp (32 / 375) = - 2"
    by (rule decExp_eqI) (simp_all add: power_int_def power_divide)
  then show ?thesis
    by (simp add: sig6_def Let_def round_half_even_def)
qed

lemma sig6_freq: "sig6 (28125 / 64) = (439453, 2)"
proof -
  have "decExp (28125 / 64) = 2"
    by (rule decExp_eqI) simp_all
  then show ?thesis
    by (simp add: sig6_def Let_def round_half_even_def)
qed

lemma sig6_freq': "sig6 (3599999 / 8192) = (439453, 2)"
proof -
  have "decExp (3599999 / 8192) = 2"
    by (rule decExp_eqI) simp_all
  then show ?thesis
    by (simp add: sig6_def Let_def round_half_even_def)
qed

lemma dec_digits_numeral:
  "dec_digits (numeral k) n = dec_digits (pred_numeral k) (n div 10) @ [digit_char (n mod 10)]"
  by (metis dec_digits.simps(2) numeral_eq_Suc)

lemma r1: "render_mant 7 853333 = ''0.0853333''"
  by (simp add: render_mant_def Let_def strip_zeros_def nat_to_string.simps dec_digits_numeral digit_char_def)

lemma r2: "render_mant 3 439453 = ''439.453''"
  by (simp add: render_mant_def Let_def strip_zeros_def nat_to_string.simps dec_digits_numeral digit_char_def)

lemma format_time: "format_double (32 / 375) = ''0.0853333''"
  by (simp add: format_double_def format_pos_def sig6_time r1)

lemma format_freq: "format_double (28125 / 64) = ''439.453''"
  by (simp add: format_double_def format_pos_def sig6_freq r2)

lemma format_freq': "format_double (3599999 / 8192) = ''439.453''"
  by (simp add: format_double_def format_pos_def sig6_freq' r2)

lemma round6_time: "round6 (32 / 375) = 853333 / 10000000"
  by (simp add: round6_def sig6_time power_int_def power_divide)

lemma round6_freq: "round6 (28125 / 64) = 439453 / 1000"
  by (simp add: round6_def sig6_freq power_int_def power_divide)

text \<open>
  C9 (amended). Writing a sequence of detections to the log and reading the text back
  gives the same number of detections in the same order, each with its note number
  unchanged and with its time and frequency rounded to six significant decimal
  digits; the rounded value differs from the exact one by at most 5 parts in a
  million.
\<close>

theorem log_round_trip:
  "readLog (writeDetections recorded) = Some (map roundDetection recorded)
   \<and> map midiNote (map roundDetection recorded) = map midiNote recorded
   \<and> length (map roundDetection recorded) = length recorded
   \<and> \<bar>round6 x - x\<bar> \<le> \<bar>x\<bar> * 5 / 10 ^ 6"
  using readLog_writeDetections [of recorded] round6_error [of x]
  by (simp add: roundDetection_def comp_def)

theorem log_round_trip_witness:
  "readLog (writeDetections [\<lparr>timeSec = 32 / 375, frequencyHz = 28125 / 64, midiNote = 69\<rparr>])
     = Some [\<lparr>timeSec = 853333 / 10000000, frequencyHz = 439453 / 1000, midiNote = 69\<rparr>]"
  using log_round_trip [of "[\<lparr>timeSec = 32 / 375, frequencyHz = 28125 / 64, midiNote = 69\<rparr>]" 0]
  by (simp add: roundDetection_def round6_time round6_freq)

text \<open>
  C9 as stated fails. The detection that the first window of a tone in bin 75 records
  is written as the line \<open>0.0853333,439.453,69\<close>. A detection with another frequency
  gives the same text, so no reader can return both, and the reader returns neither
  the exact time nor the exact frequency.
\<close>

theorem log_round_trip_counterexample:
  "writeDetections [\<lparr>timeSec = 32 / 375, frequencyHz = 28125 / 64, midiNote = 69\<rparr>]
     = ''0.0853333,439.453,69'' @ [CHR 0x0A]
   \<and> writeDetections [\<lparr>timeSec = 32 / 375, frequencyHz = 3599999 / 8192, midiNote = 69\<rparr>]
     = writeDetections [\<lparr>timeSec = 32 / 375, frequencyHz = 28125 / 64, midiNote = 69\<rparr>]
   \<and> \<lparr>timeSec = 32 / 375, frequencyHz = 3599999 / 8192, midiNote = 69\<rparr>
     \<noteq> \<lparr>timeSec = 32 / 375, frequencyHz = 28125 / 64, midiNote = (69::int)\<rparr>
   \<and> readLog (writeDetections [\<lparr>timeSec = 32 / 375, frequencyHz = 28125 / 64, midiNote = 69\<rparr>])
     \<noteq> Some [\<lparr>timeSec = 32 / 375, frequencyHz = 28125 / 64, midiNote = 69\<rparr>]"
proof -
  have n69: "to_string 69 = ''69''"
    by (simp add: to_string_def nat_to_string.simps digit_char_def)
  have w: "writeDetections [\<lparr>timeSec = 32 / 375, frequencyHz = 28125 / 64, midiNote = 69\<rparr>]
     = ''0.0853333,439.453,69'' @ [CHR 0x0A]"
    by (simp add: writeDetections_def detectionFields_def format_time format_freq n69)
  have w': "writeDetections [\<lparr>timeSec = 32 / 375, frequencyHz = 3599999 / 8192, midiNote = 69\<rparr>]
     = ''0.0853333,439.453,69'' @ [CHR 0x0A]"
    by (simp add: writeDetections_def detectionFields_def format_time format_freq' n69)
  have r: "readLog (writeDetections [\<lparr>timeSec = 32 / 375, frequencyHz = 28125 / 64, midiNote = 69\<rparr>])
     = Some [\<lparr>timeSec = 853333 / 10000000, frequencyHz = 439453 / 1000, midiNote = 69\<rparr>]"
    by (simp add: readLog_writeDetections roundDetection_def round6_time round6_freq)
  show ?thesis using r by (simp add: w w')
qed


end
